theory Spec2Isabelle
  imports
    Complex_Main
    "HOL-Library.Char_ord"
    "HOL-Library.List_Lexorder"
    "HOL-Library.Multiset"
    "HOL-Library.Signed_Division"
begin

section \<open>Time\<close>

text \<open>
  Go's \<^verbatim>\<open>time.Time\<close> is modelled as an instant in nanoseconds on one timeline and
  \<^verbatim>\<open>time.Duration\<close> as a number of nanoseconds; a Duration is an int64, so the
  operations that produce one saturate or wrap as the Go library does.
\<close>

type_synonym time = int
type_synonym duration = int

definition minDuration :: duration where
  "minDuration = - (2 ^ 63)"

definition maxDuration :: duration where
  "maxDuration = 2 ^ 63 - 1"

definition Minute :: duration where
  "Minute = 60 * 1000000000"

text \<open>\<^verbatim>\<open>t.Sub(u)\<close>: the difference, clamped to the range of a Duration.\<close>

definition Sub :: "time \<Rightarrow> time \<Rightarrow> duration" where
  "Sub t u =
     (let d = t - u in
      if d > maxDuration then maxDuration
      else if d < minDuration then minDuration
      else d)"

text \<open>
  \<^verbatim>\<open>time.Since(t)\<close> is \<^verbatim>\<open>time.Now().Sub(t)\<close>; the reading of the clock is the first
  argument.
\<close>

definition Since :: "time \<Rightarrow> time \<Rightarrow> duration" where
  "Since reading t = Sub reading t"

text \<open>Subtraction of two Durations is int64 subtraction: it wraps.\<close>

definition wrap64 :: "int \<Rightarrow> duration" where
  "wrap64 x = (x + 2 ^ 63) mod 2 ^ 64 - 2 ^ 63"

definition dminus :: "duration \<Rightarrow> duration \<Rightarrow> duration" where
  "dminus a b = wrap64 (a - b)"

text \<open>
  \<^verbatim>\<open>d.Round(m)\<close>: the nearest multiple of \<open>m\<close>, halfway values away from zero, the
  extreme Duration when the result would not fit.
\<close>

definition Round :: "duration \<Rightarrow> duration \<Rightarrow> duration" where
  "Round d m =
     (if m \<le> 0 then d
      else if d < 0 then
        (let r = - (d smod m) in
         if r + r < m then d + r
         else if minDuration \<le> d - m + r then d - m + r
         else minDuration)
      else
        (let r = d smod m in
         if r + r < m then d - r
         else if d + m - r \<le> maxDuration then d + m - r
         else maxDuration))"

text \<open>
  \<^verbatim>\<open>d.Minutes()\<close> is \<^verbatim>\<open>float64(d / Minute) + float64(d % Minute) / (60 * 1e9)\<close>, with Go's
  truncating division. The model computes the sum exactly. Both summands are exact in
  float64 and the quotient is below 1 by more than \<open>10\<^sup>-\<^sup>1\<^sup>1\<close>, so the rounding of the
  float cannot move the sum across the whole number 30 that the code compares it with.
\<close>

definition Minutes :: "duration \<Rightarrow> real" where
  "Minutes d = real_of_int (d sdiv Minute) + real_of_int (d smod Minute) / (60 * 1000000000)"

section \<open>Data model\<close>

record Config =
  ZabbixAPIURL :: string
  APIToken :: string
  CheckInterval :: duration
  OffDuration :: duration
  MediaNames :: "string list"
  StateFile :: string
  MattermostWebhook :: string

record UserGroup =
  ID :: string
  Name :: string
  Users :: "string list"

record MediaType =
  MediaTypeID :: string
  Name :: string
  Status :: string

type_synonym MediaState = "string \<rightharpoonup> time"

type_synonym GroupState = "string \<rightharpoonup> UserGroup"

section \<open>The remote platform\<close>

text \<open>
  What one JSON-RPC call can come back with: the POST fails, the body does not decode, or
  the reply decodes into its error object (code, message, data) and its result.
\<close>

datatype 'a rpc_reply =
    PostFailed
  | BadBody
  | Reply int string string 'a

datatype rpc_error =
    TransportError
  | DecodeError
  | ApiError int string string

definition getMediaTypes :: "MediaType list rpc_reply \<Rightarrow> rpc_error + MediaType list" where
  "getMediaTypes reply =
     (case reply of
        PostFailed \<Rightarrow> Inl TransportError
      | BadBody \<Rightarrow> Inl DecodeError
      | Reply code message data result \<Rightarrow>
          if code \<noteq> 0 then Inl (ApiError code message data) else Inr result)"

text \<open>\<^verbatim>\<open>enableMediaType\<close> returns the error, or nil (\<open>None\<close>) on success.\<close>

definition enableMediaType :: "string list rpc_reply \<Rightarrow> rpc_error option" where
  "enableMediaType reply =
     (case reply of
        PostFailed \<Rightarrow> Some TransportError
      | BadBody \<Rightarrow> Some DecodeError
      | Reply code message data result \<Rightarrow>
          if code \<noteq> 0 then Some (ApiError code message data) else None)"

section \<open>Messages\<close>

text \<open>
  The texts are built by \<^verbatim>\<open>fmt.Sprintf\<close> from fixed templates. A message is modelled by
  its template (the constructor) and the values formatted into it.
\<close>

datatype change =
    Added string
  | Renamed string string
  | MembersChanged string
  | Removed string

datatype alert =
    MediaDetected string duration
  | EnableFailed string rpc_error
  | AutoEnabled string
  | Reminder string duration duration
  | Restored string
  | GroupChange change

datatype sysmsg =
    SysDetected string string
  | SysExceeded string string duration duration
  | SysEnabled string string
  | SysGroupChange change

text \<open>What the webhook answers to a POST: an error, or a response with its status.\<close>

datatype hook_reply =
    HookFailed
  | HookStatus nat

section \<open>Media Remediation Engine\<close>

text \<open>
  What the world answers during one iteration of the loop over the channels: the reading
  of the clock that \<^verbatim>\<open>time.Since\<close> takes, the reply to \<^verbatim>\<open>mediatype.update\<close> and the
  reply of the webhook. Each is consulted at most once per iteration.
\<close>

record world =
  clock :: time
  enable_reply :: "string list rpc_reply"
  hook :: hook_reply

text \<open>
  The variables of \<^verbatim>\<open>processMediaTypes\<close> that the loop changes, and what it does to the
  outside: the messages posted to the webhook, the messages written to syslog and the
  ids for which \<^verbatim>\<open>mediatype.update\<close> was called, each in order.
\<close>

record media_run =
  state :: MediaState
  stateChanged :: bool
  foundDisabled :: bool
  posted :: "alert list"
  sysmsgs :: "sysmsg list"
  updates :: "string list"

text \<open>
  \<^verbatim>\<open>sendMattermostNotification\<close>: nothing without a webhook; otherwise the message is
  posted, and the reply only decides what is logged.
\<close>

definition sendMattermostNotification :: "Config \<Rightarrow> alert \<Rightarrow> hook_reply \<Rightarrow> alert list \<Rightarrow> alert list" where
  "sendMattermostNotification cfg message reply sent =
     (if MattermostWebhook cfg = '''' then sent
      else
        (case reply of
           HookFailed \<Rightarrow> sent @ [message]
         | HookStatus code \<Rightarrow> sent @ [message]))"

definition notify :: "Config \<Rightarrow> alert \<Rightarrow> world \<Rightarrow> media_run \<Rightarrow> media_run" where
  "notify cfg message w r = r\<lparr>posted := sendMattermostNotification cfg message (hook w) (posted r)\<rparr>"

definition syslog_write :: "bool \<Rightarrow> sysmsg \<Rightarrow> media_run \<Rightarrow> media_run" where
  "syslog_write sysLogger m r = (if sysLogger then r\<lparr>sysmsgs := sysmsgs r @ [m]\<rparr> else r)"

text \<open>The body of the loop, for one channel.\<close>

definition media_iter :: "Config \<Rightarrow> bool \<Rightarrow> time \<Rightarrow> world \<Rightarrow> MediaType \<Rightarrow> media_run \<Rightarrow> media_run" where
  "media_iter cfg sysLogger currentTime w media r =
     (if Status media = ''1'' then
        (let r1 = r\<lparr>foundDisabled := True\<rparr> in
         case state r1 (MediaTypeID media) of
           None \<Rightarrow>
             (let r2 = r1\<lparr>state := (state r1)(MediaTypeID media \<mapsto> currentTime), stateChanged := True\<rparr>;
                  r3 = syslog_write sysLogger (SysDetected (MediaTypeID media) (MediaType.Name media)) r2
              in if MattermostWebhook cfg \<noteq> '''' then
                   (let remaining = dminus (OffDuration cfg) (Since (clock w) currentTime)
                    in notify cfg
                         (MediaDetected (MediaType.Name media) (Round remaining Minute)) w r3)
                 else r3)
         | Some firstSeen \<Rightarrow>
             (let disabledDuration = Sub currentTime firstSeen in
              if disabledDuration \<ge> OffDuration cfg then
                (let r2 = syslog_write sysLogger
                            (SysExceeded (MediaTypeID media) (MediaType.Name media)
                               (Round disabledDuration 1000000000) (OffDuration cfg)) r1;
                     r3 = r2\<lparr>updates := updates r2 @ [MediaTypeID media]\<rparr>
                 in case enableMediaType (enable_reply w) of
                      Some err \<Rightarrow>
                        if MattermostWebhook cfg \<noteq> '''' then
                          notify cfg
                            (EnableFailed (MediaType.Name media) err) w r3
                        else r3
                    | None \<Rightarrow>
                        (let r4 = syslog_write sysLogger
                                    (SysEnabled (MediaTypeID media) (MediaType.Name media)) r3;
                             r5 = (if MattermostWebhook cfg \<noteq> '''' then
                                     notify cfg
                                       (AutoEnabled (MediaType.Name media)) w r4
                                   else r4)
                         in r5\<lparr>state := (state r5)(MediaTypeID media := None), stateChanged := True\<rparr>))
              else
                (if MattermostWebhook cfg \<noteq> '''' \<and> Minutes (Since (clock w) firstSeen) \<ge> 30 then
                   (let remaining = dminus (OffDuration cfg) disabledDuration
                    in notify cfg
                         (Reminder (MediaType.Name media) (Round disabledDuration Minute)
                            (Round remaining Minute)) w r1)
                 else r1)))
      else if state r (MediaTypeID media) \<noteq> None then
        (let r1 = r\<lparr>state := (state r)(MediaTypeID media := None), stateChanged := True\<rparr>
         in if MattermostWebhook cfg \<noteq> '''' then
              notify cfg (Restored (MediaType.Name media)) w r1
            else r1)
      else r)"

text \<open>
  The loop \<^verbatim>\<open>for _, media := range mediaTypes\<close>; \<open>ws i\<close> is the world during
  iteration \<open>i\<close>.
\<close>

fun media_loop :: "Config \<Rightarrow> bool \<Rightarrow> time \<Rightarrow> (nat \<Rightarrow> world) \<Rightarrow> nat \<Rightarrow> MediaType list \<Rightarrow> media_run \<Rightarrow> media_run" where
  "media_loop cfg sysLogger currentTime ws i [] r = r"
| "media_loop cfg sysLogger currentTime ws i (media # rest) r =
     media_loop cfg sysLogger currentTime ws (Suc i) rest
       (media_iter cfg sysLogger currentTime (ws i) media r)"

text \<open>
  \<^verbatim>\<open>saveState\<close> writes the file; \<open>ok\<close> says whether marshalling and writing succeed.
  The result is what the call has written, \<open>None\<close> when it has written nothing.
\<close>

definition saveState :: "bool \<Rightarrow> MediaState \<Rightarrow> MediaState option" where
  "saveState ok st = (if ok then Some st else None)"

text \<open>
  One cycle of the engine. Its surroundings: the reply to \<^verbatim>\<open>mediatype.get\<close>, the
  reading of \<^verbatim>\<open>time.Now()\<close>, the worlds of the iterations and whether the state file
  can be written.
\<close>

record media_env =
  media_reply :: "MediaType list rpc_reply"
  now :: time
  worlds :: "nat \<Rightarrow> world"
  media_write_ok :: bool

record media_out =
  m_state :: MediaState
  m_written :: "MediaState option"
  m_posted :: "alert list"
  m_sysmsgs :: "sysmsg list"
  m_updates :: "string list"

definition processMediaTypes :: "Config \<Rightarrow> bool \<Rightarrow> media_env \<Rightarrow> MediaState \<Rightarrow> media_out" where
  "processMediaTypes cfg sysLogger env st =
     (case getMediaTypes (media_reply env) of
        Inl err \<Rightarrow>
          \<lparr>m_state = st, m_written = None, m_posted = [], m_sysmsgs = [], m_updates = []\<rparr>
      | Inr mediaTypes \<Rightarrow>
          if length mediaTypes = 0 then
            \<lparr>m_state = st, m_written = None, m_posted = [], m_sysmsgs = [], m_updates = []\<rparr>
          else
            (let r = media_loop cfg sysLogger (now env) (worlds env) 0 mediaTypes
                       \<lparr>state = st, stateChanged = False, foundDisabled = False,
                        posted = [], sysmsgs = [], updates = []\<rparr>
             in \<lparr>m_state = state r,
                 m_written = (if stateChanged r then saveState (media_write_ok env) (state r)
                              else None),
                 m_posted = posted r, m_sysmsgs = sysmsgs r, m_updates = updates r\<rparr>))"

section \<open>Group Drift Detector\<close>

text \<open>One element of the result of \<^verbatim>\<open>usergroup.get\<close>, with the \<^verbatim>\<open>userid\<close> of each user.\<close>

record GroupResult =
  gr_ID :: string
  gr_Name :: string
  gr_Users :: "string list"

text \<open>
  The loop of \<^verbatim>\<open>getUserGroups\<close> over the result: the user ids are collected and
  sorted (\<^verbatim>\<open>sort.Strings\<close> is the bytewise order of strings), and a later element with
  the same id overwrites an earlier one.
\<close>

fun collect_groups :: "GroupResult list \<Rightarrow> GroupState \<Rightarrow> GroupState" where
  "collect_groups [] st = st"
| "collect_groups (g # gs) st =
     collect_groups gs
       (st(gr_ID g \<mapsto> \<lparr>ID = gr_ID g, Name = gr_Name g, Users = sort (gr_Users g)\<rparr>))"

definition getUserGroups :: "GroupResult list rpc_reply \<Rightarrow> rpc_error + GroupState" where
  "getUserGroups reply =
     (case reply of
        PostFailed \<Rightarrow> Inl TransportError
      | BadBody \<Rightarrow> Inl DecodeError
      | Reply code message data result \<Rightarrow>
          if code \<noteq> 0 then Inl (ApiError code message data)
          else Inr (collect_groups result Map.empty))"

fun elements_equal :: "string list \<Rightarrow> string list \<Rightarrow> bool" where
  "elements_equal (x # xs) (y # ys) = (if x \<noteq> y then False else elements_equal xs ys)"
| "elements_equal xs ys = True"

definition stringSlicesEqual :: "string list \<Rightarrow> string list \<Rightarrow> bool" where
  "stringSlicesEqual a b = (if length a \<noteq> length b then False else elements_equal a b)"

text \<open>
  \<^verbatim>\<open>compareGroupStates\<close> ranges over \<open>curr\<close> (here \<open>current\<close>) and then over \<open>prev\<close>. Go leaves the order
  of the keys in a \<^verbatim>\<open>range\<close> over a map open, so each loop takes the order it meets the
  keys in; a key that is not in the map yields no iteration.
\<close>

fun compare_curr :: "GroupState \<Rightarrow> GroupState \<Rightarrow> string list \<Rightarrow> change list \<Rightarrow> change list" where
  "compare_curr prev current [] changes = changes"
| "compare_curr prev current (k # ks) changes =
     compare_curr prev current ks
       (case current k of
          None \<Rightarrow> changes
        | Some cur \<Rightarrow>
            (case prev k of
               None \<Rightarrow> changes @ [Added (UserGroup.Name cur)]
             | Some p \<Rightarrow>
                 (let changes1 =
                        (if UserGroup.Name p \<noteq> UserGroup.Name cur
                         then changes @ [Renamed (UserGroup.Name p) (UserGroup.Name cur)]
                         else changes)
                  in if \<not> stringSlicesEqual (Users p) (Users cur)
                     then changes1 @ [MembersChanged (UserGroup.Name cur)]
                     else changes1)))"

fun compare_prev :: "GroupState \<Rightarrow> GroupState \<Rightarrow> string list \<Rightarrow> change list \<Rightarrow> change list" where
  "compare_prev prev current [] changes = changes"
| "compare_prev prev current (k # ks) changes =
     compare_prev prev current ks
       (case prev k of
          None \<Rightarrow> changes
        | Some p \<Rightarrow>
            (case current k of
               None \<Rightarrow> changes @ [Removed (UserGroup.Name p)]
             | Some cur \<Rightarrow> changes))"

definition compareGroupStates :: "GroupState \<Rightarrow> GroupState \<Rightarrow> string list \<Rightarrow> string list \<Rightarrow> change list" where
  "compareGroupStates prev current keys_curr keys_prev =
     compare_prev prev current keys_prev (compare_curr prev current keys_curr [])"

definition saveGroupState :: "bool \<Rightarrow> GroupState \<Rightarrow> GroupState option" where
  "saveGroupState ok st = (if ok then Some st else None)"

text \<open>
  The surroundings of one cycle of the detector: the reply to \<^verbatim>\<open>usergroup.get\<close>, the
  orders of the two \<^verbatim>\<open>range\<close> loops of the comparison, whether the snapshot file can be
  written, and the reply of the webhook to each message.
\<close>

record group_env =
  group_reply :: "GroupResult list rpc_reply"
  range_curr :: "string list"
  range_prev :: "string list"
  group_write_ok :: bool
  group_hooks :: "nat \<Rightarrow> hook_reply"

record group_out =
  g_prev :: GroupState
  g_written :: "GroupState option"
  g_posted :: "alert list"
  g_sysmsgs :: "sysmsg list"

text \<open>The loop over the changes: each goes to syslog and to the webhook on its own.\<close>

fun report_changes :: "Config \<Rightarrow> bool \<Rightarrow> (nat \<Rightarrow> hook_reply) \<Rightarrow> nat \<Rightarrow> change list \<Rightarrow> alert list \<times> sysmsg list \<Rightarrow> alert list \<times> sysmsg list" where
  "report_changes cfg sysLogger hooks i [] out = out"
| "report_changes cfg sysLogger hooks i (c # cs) (sent, logged) =
     report_changes cfg sysLogger hooks (Suc i) cs
       (if MattermostWebhook cfg \<noteq> ''''
        then sendMattermostNotification cfg (GroupChange c) (hooks i) sent
        else sent,
        if sysLogger then logged @ [SysGroupChange c] else logged)"

text \<open>
  The two loops that rebuild \<open>prev\<close> from \<open>current\<close> treat every key on its own, so the
  order of the keys does not show: the first deletes the keys of \<open>prev\<close> that \<open>current\<close>
  lacks, the second stores every entry of \<open>current\<close>.
\<close>

definition delete_stale :: "GroupState \<Rightarrow> GroupState \<Rightarrow> GroupState" where
  "delete_stale prev current = (\<lambda>k. if current k = None then None else prev k)"

definition store_all :: "GroupState \<Rightarrow> GroupState \<Rightarrow> GroupState" where
  "store_all prev current = (\<lambda>k. case current k of None \<Rightarrow> prev k | Some v \<Rightarrow> Some v)"

definition processUserGroups :: "Config \<Rightarrow> bool \<Rightarrow> group_env \<Rightarrow> GroupState \<Rightarrow> bool \<Rightarrow> group_out" where
  "processUserGroups cfg sysLogger env prev baselineMode =
     (case getUserGroups (group_reply env) of
        Inl err \<Rightarrow> \<lparr>g_prev = prev, g_written = None, g_posted = [], g_sysmsgs = []\<rparr>
      | Inr current \<Rightarrow>
          if baselineMode then
            \<lparr>g_prev = store_all prev current,
             g_written = saveGroupState (group_write_ok env) current,
             g_posted = [], g_sysmsgs = []\<rparr>
          else
            (let changes = compareGroupStates prev current (range_curr env) (range_prev env) in
             if length changes > 0 then
               (let out = report_changes cfg sysLogger (group_hooks env) 0 changes ([], [])
                in \<lparr>g_prev = store_all (delete_stale prev current) current,
                    g_written = saveGroupState (group_write_ok env) current,
                    g_posted = fst out, g_sysmsgs = snd out\<rparr>)
             else \<lparr>g_prev = prev, g_written = None, g_posted = [], g_sysmsgs = []\<rparr>))"

section \<open>The poll loop\<close>

text \<open>
  What reading a state file at startup can come to: the file is missing, \<^verbatim>\<open>os.Stat\<close>
  fails, the file is empty, it cannot be opened or read, it does not decode, or it holds
  a state.
\<close>

datatype 'a load =
    NotExist
  | StatFailed
  | EmptyFile
  | OpenFailed
  | ReadFailed
  | BadJson
  | Loaded 'a

text \<open>\<^verbatim>\<open>loadGroupState\<close> returns the state, whether the file existed, and whether it failed.\<close>

definition loadGroupState :: "GroupState load \<Rightarrow> GroupState \<times> bool \<times> bool" where
  "loadGroupState file =
     (case file of
        NotExist \<Rightarrow> (Map.empty, False, False)
      | StatFailed \<Rightarrow> (Map.empty, False, True)
      | EmptyFile \<Rightarrow> (Map.empty, True, False)
      | OpenFailed \<Rightarrow> (Map.empty, True, True)
      | ReadFailed \<Rightarrow> (Map.empty, True, True)
      | BadJson \<Rightarrow> (Map.empty, True, True)
      | Loaded st \<Rightarrow> (st, True, False))"

text \<open>\<^verbatim>\<open>loadState\<close> returns the state and whether it failed; it does not call \<^verbatim>\<open>os.Stat\<close>.\<close>

definition loadState :: "MediaState load \<Rightarrow> MediaState \<times> bool" where
  "loadState file =
     (case file of
        NotExist \<Rightarrow> (Map.empty, False)
      | StatFailed \<Rightarrow> (Map.empty, True)
      | EmptyFile \<Rightarrow> (Map.empty, False)
      | OpenFailed \<Rightarrow> (Map.empty, True)
      | ReadFailed \<Rightarrow> (Map.empty, True)
      | BadJson \<Rightarrow> (Map.empty, True)
      | Loaded st \<Rightarrow> (st, False))"

text \<open>The variables of \<^verbatim>\<open>main\<close> that live across the cycles.\<close>

record main_state =
  media_state :: MediaState
  groupState :: GroupState
  groupStateExisted :: bool

definition main_init :: "MediaState load \<Rightarrow> GroupState load \<Rightarrow> main_state" where
  "main_init media_file group_file =
     (let (st, err) = loadState media_file;
          st1 = (if err then Map.empty else st);
          (gs, existed, gerr) = loadGroupState group_file;
          gs1 = (if gerr then Map.empty else gs);
          existed1 = (if gerr then False else existed)
      in \<lparr>media_state = st1, groupState = gs1, groupStateExisted = existed1\<rparr>)"

record cycle_env =
  media_env :: media_env
  group_env :: group_env

record cycle_out =
  media_out :: media_out
  group_out :: group_out
  baseline :: bool

text \<open>One turn of the \<^verbatim>\<open>for\<close> loop of \<^verbatim>\<open>main\<close>.\<close>

definition main_cycle :: "Config \<Rightarrow> bool \<Rightarrow> cycle_env \<Rightarrow> main_state \<Rightarrow> main_state \<times> cycle_out" where
  "main_cycle cfg sysLogger env s =
     (let m = processMediaTypes cfg sysLogger (media_env env) (media_state s);
          baselineMode = \<not> groupStateExisted s;
          g = processUserGroups cfg sysLogger (group_env env) (groupState s) baselineMode
      in (\<lparr>media_state = m_state m, groupState = g_prev g,
           groupStateExisted = (if baselineMode then True else groupStateExisted s)\<rparr>,
          \<lparr>media_out = m, group_out = g, baseline = baselineMode\<rparr>))"

text \<open>
  The loop never ends; the model runs it over the surroundings of finitely many cycles
  and returns the state after the last one with what each cycle did.
\<close>

fun main_loop :: "Config \<Rightarrow> bool \<Rightarrow> cycle_env list \<Rightarrow> main_state \<Rightarrow> main_state \<times> cycle_out list" where
  "main_loop cfg sysLogger [] s = (s, [])"
| "main_loop cfg sysLogger (env # envs) s =
     (let (s1, out) = main_cycle cfg sysLogger env s;
          (s2, outs) = main_loop cfg sysLogger envs s1
      in (s2, out # outs))"

section \<open>Auxiliary definitions\<close>

text \<open>Two runs of the loop agree when they differ at most in what was posted.\<close>

definition agree :: "media_run \<Rightarrow> media_run \<Rightarrow> bool" where
  "agree r r' \<longleftrightarrow>
     state r = state r' \<and> stateChanged r = stateChanged r' \<and> foundDisabled r = foundDisabled r' \<and>
     sysmsgs r = sysmsgs r' \<and> updates r = updates r'"

text \<open>Concrete surroundings, for the examples.\<close>

definition ex_cfg :: Config where
  "ex_cfg = \<lparr>ZabbixAPIURL = ''http://zabbix'', APIToken = ''token'', CheckInterval = 5 * Minute,
             OffDuration = 60 * Minute, MediaNames = [''Email''], StateFile = ''media_state.json'',
             MattermostWebhook = ''http://mm/hooks/x''\<rparr>"

definition email_down :: MediaType where
  "email_down = \<lparr>MediaTypeID = ''7'', Name = ''Email'', Status = ''1''\<rparr>"

definition world_ok :: "time \<Rightarrow> nat \<Rightarrow> world" where
  "world_ok t i = \<lparr>clock = t, enable_reply = Reply 0 [] [] [''7''], hook = HookStatus 200\<rparr>"

definition world_fail :: "time \<Rightarrow> nat \<Rightarrow> world" where
  "world_fail t i =
     \<lparr>clock = t, enable_reply = Reply 1 ''Invalid params'' ''denied'' [], hook = HookStatus 200\<rparr>"

definition media_cycle_env :: "MediaType list rpc_reply \<Rightarrow> time \<Rightarrow> (nat \<Rightarrow> world) \<Rightarrow> media_env" where
  "media_cycle_env reply t ws = \<lparr>media_reply = reply, now = t, worlds = ws, media_write_ok = True\<rparr>"

definition groups_down :: group_env where
  "groups_down = \<lparr>group_reply = PostFailed, range_curr = [], range_prev = [], group_write_ok = True,
                  group_hooks = (\<lambda>i. HookStatus 200)\<rparr>"

text \<open>
  The elements of a fetched list that carry the channel id \<open>k\<close>, the place of the first
  of them in the list, and the list a cycle fetches (empty when the fetch fails).
\<close>

definition occurrences :: "string \<Rightarrow> MediaType list \<Rightarrow> MediaType list" where
  "occurrences k ms = filter (\<lambda>m. MediaTypeID m = k) ms"

definition position :: "string \<Rightarrow> MediaType list \<Rightarrow> nat" where
  "position k ms = length (takeWhile (\<lambda>m. MediaTypeID m \<noteq> k) ms)"

definition fetched :: "media_env \<Rightarrow> MediaType list" where
  "fetched env = (case getMediaTypes (media_reply env) of Inl err \<Rightarrow> [] | Inr ms \<Rightarrow> ms)"

text \<open>
  A cycle finds the channel \<open>k\<close>, tracked since \<open>firstSeen\<close>, in the window of the
  reminder: the channel is once in the fetched list and disabled, the time it has been
  disabled is at least 30 minutes and below the threshold, and the clock has not run
  backwards between \<^verbatim>\<open>time.Now()\<close> and \<^verbatim>\<open>time.Since\<close>. The reminder of that cycle
  carries the name of the channel, the elapsed and the remaining time.
\<close>

definition reminder_due :: "Config \<Rightarrow> string \<Rightarrow> time \<Rightarrow> media_env \<Rightarrow> bool" where
  "reminder_due cfg k firstSeen env =
     (case occurrences k (fetched env) of
        [media] \<Rightarrow>
          Status media = ''1'' \<and> 30 * Minute \<le> now env - firstSeen \<and>
          now env - firstSeen < OffDuration cfg \<and>
          now env \<le> clock (worlds env (position k (fetched env)))
      | _ \<Rightarrow> False)"

definition reminder :: "Config \<Rightarrow> time \<Rightarrow> media_env \<Rightarrow> MediaType \<Rightarrow> alert" where
  "reminder cfg firstSeen env media =
     Reminder (MediaType.Name media) (Round (now env - firstSeen) Minute)
       (Round (dminus (OffDuration cfg) (now env - firstSeen)) Minute)"

text \<open>A cycle at time \<open>t\<close> that fetches the one disabled channel; the group fetch fails.\<close>

definition cycle_at :: "time \<Rightarrow> (nat \<Rightarrow> world) \<Rightarrow> cycle_env" where
  "cycle_at t ws =
     \<lparr>media_env = media_cycle_env (Reply 0 [] [] [email_down]) t ws, group_env = groups_down\<rparr>"

text \<open>
  A cycle finds the channel \<open>k\<close> once in its list and disabled; the call of
  \<^verbatim>\<open>mediatype.update\<close> for \<open>k\<close> would succeed in this cycle; and the ids for which the
  cycles of a run have called \<^verbatim>\<open>mediatype.update\<close>, in order.
\<close>

definition observed_down :: "string \<Rightarrow> media_env \<Rightarrow> bool" where
  "observed_down k env =
     (case occurrences k (fetched env) of [media] \<Rightarrow> Status media = ''1'' | _ \<Rightarrow> False)"

definition enable_ok :: "string \<Rightarrow> media_env \<Rightarrow> bool" where
  "enable_ok k env =
     (enableMediaType (enable_reply (worlds env (position k (fetched env)))) = None)"

fun attempts :: "cycle_out list \<Rightarrow> string list" where
  "attempts [] = []"
| "attempts (out # outs) = m_updates (media_out out) @ attempts outs"

text \<open>The watch-state that tracks the channel \<open>7\<close> since the instant 0.\<close>

definition email_tracked :: MediaState where
  "email_tracked = [''7'' \<mapsto> 0]"

text \<open>The message is a reminder.\<close>

definition is_reminder :: "alert \<Rightarrow> bool" where
  "is_reminder a = (case a of Reminder name elapsed remaining \<Rightarrow> True | _ \<Rightarrow> False)"

text \<open>
  A channel whose iteration finds nothing to change: disabled, tracked and below the
  threshold, or enabled and not tracked.
\<close>

definition settled :: "Config \<Rightarrow> time \<Rightarrow> MediaState \<Rightarrow> MediaType \<Rightarrow> bool" where
  "settled cfg t st media =
     (if Status media = ''1''
      then (case st (MediaTypeID media) of
              None \<Rightarrow> False
            | Some firstSeen \<Rightarrow> Sub t firstSeen < OffDuration cfg)
      else st (MediaTypeID media) = None)"

section \<open>The structural diff, as specified\<close>

text \<open>
  The four kinds of change between a prior and a current group state, by group id:
  added (in current, not in prior), removed (in prior, not in current), renamed (in both,
  the names differ) and membership changed (in both, the member sets differ). The
  specified result holds one description for each of them.
\<close>

definition added_ids :: "GroupState \<Rightarrow> GroupState \<Rightarrow> string set" where
  "added_ids prev current = dom current - dom prev"

definition removed_ids :: "GroupState \<Rightarrow> GroupState \<Rightarrow> string set" where
  "removed_ids prev current = dom prev - dom current"

definition renamed_ids :: "GroupState \<Rightarrow> GroupState \<Rightarrow> string set" where
  "renamed_ids prev current =
     {k \<in> dom current \<inter> dom prev. UserGroup.Name (the (prev k)) \<noteq> UserGroup.Name (the (current k))}"

definition regrouped_ids :: "GroupState \<Rightarrow> GroupState \<Rightarrow> string set" where
  "regrouped_ids prev current =
     {k \<in> dom current \<inter> dom prev. set (Users (the (prev k))) \<noteq> set (Users (the (current k)))}"

definition specified_changes :: "GroupState \<Rightarrow> GroupState \<Rightarrow> change multiset" where
  "specified_changes prev current =
     image_mset (\<lambda>k. Added (UserGroup.Name (the (current k)))) (mset_set (added_ids prev current)) +
     image_mset (\<lambda>k. Renamed (UserGroup.Name (the (prev k))) (UserGroup.Name (the (current k))))
       (mset_set (renamed_ids prev current)) +
     image_mset (\<lambda>k. MembersChanged (UserGroup.Name (the (current k))))
       (mset_set (regrouped_ids prev current)) +
     image_mset (\<lambda>k. Removed (UserGroup.Name (the (prev k)))) (mset_set (removed_ids prev current))"

text \<open>A member set is stored as a sorted sequence without repetition.\<close>

definition stored_set :: "string list \<Rightarrow> bool" where
  "stored_set us \<longleftrightarrow> sorted us \<and> distinct us"

text \<open>What one iteration of each loop of \<^verbatim>\<open>compareGroupStates\<close> appends.\<close>

definition curr_changes :: "GroupState \<Rightarrow> GroupState \<Rightarrow> string \<Rightarrow> change list" where
  "curr_changes prev current k =
     (case current k of
        None \<Rightarrow> []
      | Some cur \<Rightarrow>
          (case prev k of
             None \<Rightarrow> [Added (UserGroup.Name cur)]
           | Some p \<Rightarrow>
               (if UserGroup.Name p \<noteq> UserGroup.Name cur
                then [Renamed (UserGroup.Name p) (UserGroup.Name cur)] else []) @
               (if Users p \<noteq> Users cur then [MembersChanged (UserGroup.Name cur)] else [])))"

definition prev_changes :: "GroupState \<Rightarrow> GroupState \<Rightarrow> string \<Rightarrow> change list" where
  "prev_changes prev current k =
     (case prev k of
        None \<Rightarrow> []
      | Some p \<Rightarrow> (case current k of None \<Rightarrow> [Removed (UserGroup.Name p)] | Some cur \<Rightarrow> []))"

text \<open>The result list of a reply; empty when the call has failed.\<close>

definition rpc_result :: "'a list rpc_reply \<Rightarrow> 'a list" where
  "rpc_result reply = (case reply of Reply code message data result \<Rightarrow> result | _ \<Rightarrow> [])"

text \<open>
  A prior snapshot and a reply of \<^verbatim>\<open>usergroup.get\<close> that differ by one group added,
  one removed, one renamed and one with a member replaced.
\<close>

definition ex_prior :: GroupState where
  "ex_prior = [''1'' \<mapsto> \<lparr>ID = ''1'', Name = ''Admins'', Users = [''1'', ''2'']\<rparr>,
               ''2'' \<mapsto> \<lparr>ID = ''2'', Name = ''Dev'', Users = [''3'']\<rparr>,
               ''3'' \<mapsto> \<lparr>ID = ''3'', Name = ''Old'', Users = [''4'']\<rparr>]"

definition ex_result :: "GroupResult list" where
  "ex_result = [\<lparr>gr_ID = ''1'', gr_Name = ''Admins'', gr_Users = [''3'', ''1'']\<rparr>,
                \<lparr>gr_ID = ''2'', gr_Name = ''Devs'', gr_Users = [''3'']\<rparr>,
                \<lparr>gr_ID = ''4'', gr_Name = ''Ops'', gr_Users = [''5'']\<rparr>]"

definition ex_current :: GroupState where
  "ex_current = [''1'' \<mapsto> \<lparr>ID = ''1'', Name = ''Admins'', Users = [''1'', ''3'']\<rparr>,
                 ''2'' \<mapsto> \<lparr>ID = ''2'', Name = ''Devs'', Users = [''3'']\<rparr>,
                 ''4'' \<mapsto> \<lparr>ID = ''4'', Name = ''Ops'', Users = [''5'']\<rparr>]"

text \<open>
  A cycle whose channel fetch fails and whose group fetch gets the given reply, with the
  given orders of the keys for the comparison.
\<close>

definition groups_cycle :: "GroupResult list rpc_reply \<Rightarrow> string list \<Rightarrow> string list \<Rightarrow> cycle_env" where
  "groups_cycle reply kc kp =
     \<lparr>media_env = media_cycle_env PostFailed 0 (world_ok 0),
      group_env = \<lparr>group_reply = reply, range_curr = kc, range_prev = kp, group_write_ok = True,
                   group_hooks = (\<lambda>i. HookStatus 200)\<rparr>\<rparr>"

section \<open>Lemmas\<close>

subsection \<open>Time\<close>

lemma Minutes_exact: "Minutes d = real_of_int d / 60000000000"
proof -
  have "(d sdiv Minute) * Minute + d smod Minute = d"
    by (rule sdiv_mult_smod_eq)
  then have "real_of_int ((d sdiv Minute) * Minute + d smod Minute) = real_of_int d"
    by simp
  then have "real_of_int (d sdiv Minute) * 60000000000 + real_of_int (d smod Minute) = real_of_int d"
    by (simp add: Minute_def)
  then show ?thesis
    by (simp add: Minutes_def field_simps)
qed

lemma Minutes_ge_30: "30 \<le> Minutes d \<longleftrightarrow> 30 * Minute \<le> d"
proof -
  have "30 \<le> Minutes d \<longleftrightarrow> (1800000000000::real) \<le> real_of_int d"
    by (simp add: Minutes_exact field_simps)
  also have "\<dots> \<longleftrightarrow> 1800000000000 \<le> d"
    by linarith
  finally show ?thesis by (simp add: Minute_def)
qed

lemma Sub_exact: "minDuration \<le> t - u \<Longrightarrow> t - u \<le> maxDuration \<Longrightarrow> Sub t u = t - u"
  by (simp add: Sub_def Let_def)

lemma Sub_mono: "t \<le> t' \<Longrightarrow> Sub t u \<le> Sub t' u"
  by (simp add: Sub_def Let_def minDuration_def maxDuration_def)


subsection \<open>The loop over the channels\<close>

lemma getMediaTypes_Inl_iff:
  "(\<exists>err. getMediaTypes reply = Inl err) \<longleftrightarrow>
     reply = PostFailed \<or> reply = BadBody \<or> (\<exists>code message data result. reply = Reply code message data result \<and> code \<noteq> 0)"
  by (cases reply) (auto simp: getMediaTypes_def)

lemma media_iter_state_other:
  "k \<noteq> MediaTypeID media \<Longrightarrow> state (media_iter cfg sl t w media r) k = state r k"
  by (simp add: media_iter_def Let_def notify_def syslog_write_def split: option.split)

lemma media_iter_updates_other:
  "k \<noteq> MediaTypeID media \<Longrightarrow>
     filter (\<lambda>x. x = k) (updates (media_iter cfg sl t w media r)) = filter (\<lambda>x. x = k) (updates r)"
  by (simp add: media_iter_def Let_def notify_def syslog_write_def split: option.split)

lemma media_loop_other:
  "k \<notin> MediaTypeID ` set ms \<Longrightarrow>
     state (media_loop cfg sl t ws i ms r) k = state r k \<and>
     filter (\<lambda>x. x = k) (updates (media_loop cfg sl t ws i ms r)) = filter (\<lambda>x. x = k) (updates r)"
proof (induction ms arbitrary: i r)
  case Nil
  then show ?case by simp
next
  case (Cons m ms)
  then show ?case
    by (simp add: media_iter_state_other media_iter_updates_other)
qed

lemma media_loop_append:
  "media_loop cfg sl t ws i (xs @ ys) r =
     media_loop cfg sl t ws (i + length xs) ys (media_loop cfg sl t ws i xs r)"
  by (induction xs arbitrary: i r) simp_all

lemma media_iter_posted_prefix:
  "\<exists>new. posted (media_iter cfg sl t w media r) = posted r @ new"
  by (simp add: media_iter_def Let_def notify_def syslog_write_def sendMattermostNotification_def
      split: option.split hook_reply.split)

lemma media_loop_posted_prefix:
  "\<exists>new. posted (media_loop cfg sl t ws i ms r) = posted r @ new"
proof (induction ms arbitrary: i r)
  case Nil
  then show ?case by simp
next
  case (Cons m ms)
  obtain a where a: "posted (media_iter cfg sl t (ws i) m r) = posted r @ a"
    using media_iter_posted_prefix by blast
  obtain b where "posted (media_loop cfg sl t ws (Suc i) ms (media_iter cfg sl t (ws i) m r))
      = posted (media_iter cfg sl t (ws i) m r) @ b"
    using Cons.IH by blast
  with a show ?case by simp
qed

lemma media_iter_agree:
  assumes "agree r r'"
  shows "agree (media_iter cfg sl t w media r)
               (media_iter (cfg\<lparr>MattermostWebhook := x\<rparr>) sl t (w\<lparr>hook := h\<rparr>) media r')"
  using assms
  by (simp add: agree_def media_iter_def Let_def notify_def syslog_write_def split: option.split)

lemma media_loop_agree:
  assumes "agree r r'"
  shows "agree (media_loop cfg sl t ws i ms r)
               (media_loop (cfg\<lparr>MattermostWebhook := x\<rparr>) sl t (\<lambda>j. (ws j)\<lparr>hook := h j\<rparr>) i ms r')"
  using assms
proof (induction ms arbitrary: i r r')
  case Nil
  then show ?case by simp
next
  case (Cons m ms)
  show ?case
    by (simp, rule Cons.IH, rule media_iter_agree, rule Cons.prems)
qed

lemma processMediaTypes_webhook:
  fixes cfg sl env st x h
  defines "quiet \<equiv> processMediaTypes cfg sl env st"
    and "loud \<equiv> processMediaTypes (cfg\<lparr>MattermostWebhook := x\<rparr>) sl
                 (env\<lparr>worlds := \<lambda>j. (worlds env j)\<lparr>hook := h j\<rparr>\<rparr>) st"
  shows "m_state loud = m_state quiet" "m_updates loud = m_updates quiet"
    "m_written loud = m_written quiet" "m_sysmsgs loud = m_sysmsgs quiet"
proof -
  let ?r0 = "\<lparr>state = st, stateChanged = False, foundDisabled = False,
               posted = [], sysmsgs = [], updates = []\<rparr>"
  have a: "agree (media_loop cfg sl t ws 0 ms ?r0)
       (media_loop (cfg\<lparr>MattermostWebhook := x\<rparr>) sl t (\<lambda>j. (ws j)\<lparr>hook := h j\<rparr>) 0 ms ?r0)" for ms t ws
    by (rule media_loop_agree) (simp add: agree_def)
  show "m_state loud = m_state quiet" "m_updates loud = m_updates quiet"
    "m_written loud = m_written quiet" "m_sysmsgs loud = m_sysmsgs quiet"
    using a [of "now env" "worlds env"]
    by (auto simp: quiet_def loud_def processMediaTypes_def Let_def agree_def split: sum.split)
qed

subsection \<open>The poll loop\<close>

lemma main_loop_length: "length (snd (main_loop cfg sl envs s)) = length envs"
  by (induction envs arbitrary: s) (simp_all add: split_beta)

lemma main_loop_Cons:
  "fst (main_loop cfg sl (env # envs) s) = fst (main_loop cfg sl envs (fst (main_cycle cfg sl env s)))"
  "snd (main_loop cfg sl (env # envs) s) =
     snd (main_cycle cfg sl env s) # snd (main_loop cfg sl envs (fst (main_cycle cfg sl env s)))"
  by (simp_all add: split_beta)

lemma main_cycle_media:
  "media_state (fst (main_cycle cfg sl env s)) =
     m_state (processMediaTypes cfg sl (media_env env) (media_state s))"
  "media_out (snd (main_cycle cfg sl env s)) =
     processMediaTypes cfg sl (media_env env) (media_state s)"
  by (simp_all add: main_cycle_def Let_def)

lemma getMediaTypes_fails:
  assumes "reply = PostFailed \<or> reply = BadBody \<or>
           (\<exists>code message data result. reply = Reply code message data result \<and> code \<noteq> 0)"
  shows "\<exists>err. getMediaTypes reply = Inl err"
  using assms by (auto simp: getMediaTypes_def)

lemma processMediaTypes_fetch_failed:
  "getMediaTypes (media_reply env) = Inl err \<Longrightarrow>
     processMediaTypes cfg sl env st =
       \<lparr>m_state = st, m_written = None, m_posted = [], m_sysmsgs = [], m_updates = []\<rparr>"
  by (simp add: processMediaTypes_def)

lemma processMediaTypes_absent:
  assumes "getMediaTypes (media_reply env) = Inr ms" "k \<notin> MediaTypeID ` set ms"
  shows "m_state (processMediaTypes cfg sl env st) k = st k"
  using assms media_loop_other [of k ms]
  by (simp add: processMediaTypes_def Let_def)

lemma processMediaTypes_absent':
  assumes "\<forall>ms. getMediaTypes (media_reply env) = Inr ms \<longrightarrow> k \<notin> MediaTypeID ` set ms"
  shows "m_state (processMediaTypes cfg sl env st) k = st k"
proof (cases "getMediaTypes (media_reply env)")
  case (Inl err)
  then show ?thesis by (simp add: processMediaTypes_fetch_failed)
next
  case (Inr ms)
  with assms show ?thesis by (simp add: processMediaTypes_absent)
qed

subsection \<open>One channel in one cycle\<close>

lemma sendMattermostNotification_eq:
  "sendMattermostNotification cfg message reply sent =
     (if MattermostWebhook cfg = '''' then sent else sent @ [message])"
  by (simp add: sendMattermostNotification_def split: hook_reply.split)

lemma media_iter_early:
  assumes "Status media = ''1''" "state r (MediaTypeID media) = Some firstSeen"
    "Sub t firstSeen < OffDuration cfg"
  shows "state (media_iter cfg sl t w media r) = state r"
    "updates (media_iter cfg sl t w media r) = updates r"
    "stateChanged (media_iter cfg sl t w media r) = stateChanged r"
    "sysmsgs (media_iter cfg sl t w media r) = sysmsgs r"
    "posted (media_iter cfg sl t w media r) =
       (if MattermostWebhook cfg \<noteq> '''' \<and> 30 \<le> Minutes (Since (clock w) firstSeen)
        then posted r @ [Reminder (MediaType.Name media) (Round (Sub t firstSeen) Minute)
                           (Round (dminus (OffDuration cfg) (Sub t firstSeen)) Minute)]
        else posted r)"
  using assms
  by (simp_all add: media_iter_def Let_def notify_def sendMattermostNotification_eq)

lemma media_iter_due:
  assumes "Status media = ''1''" "state r (MediaTypeID media) = Some firstSeen"
    "OffDuration cfg \<le> Sub t firstSeen"
  shows "updates (media_iter cfg sl t w media r) = updates r @ [MediaTypeID media]"
    "state (media_iter cfg sl t w media r) =
       (case enableMediaType (enable_reply w) of
          None \<Rightarrow> (state r)(MediaTypeID media := None)
        | Some err \<Rightarrow> state r)"
    "posted (media_iter cfg sl t w media r) =
       (if MattermostWebhook cfg = '''' then posted r
        else posted r @ [case enableMediaType (enable_reply w) of
                           None \<Rightarrow> AutoEnabled (MediaType.Name media)
                         | Some err \<Rightarrow> EnableFailed (MediaType.Name media) err])"
  using assms
  by (simp_all add: media_iter_def Let_def notify_def syslog_write_def sendMattermostNotification_eq
      split: option.split)

text \<open>The cycle seen from one channel that occurs once in the fetched list.\<close>

lemma cycle_at_channel:
  fixes cfg :: Config and sl :: bool and env :: media_env and st :: MediaState
    and pre post :: "MediaType list" and media :: MediaType
  assumes fetch: "getMediaTypes (media_reply env) = Inr (pre @ media # post)"
    and uniq: "MediaTypeID media \<notin> MediaTypeID ` set pre" "MediaTypeID media \<notin> MediaTypeID ` set post"
  defines "r0 \<equiv> \<lparr>state = st, stateChanged = False, foundDisabled = False,
                  posted = [], sysmsgs = [], updates = []\<rparr>"
  defines "r1 \<equiv> media_loop cfg sl (now env) (worlds env) 0 pre r0"
  defines "r2 \<equiv> media_iter cfg sl (now env) (worlds env (length pre)) media r1"
  defines "out \<equiv> processMediaTypes cfg sl env st"
  shows "state r1 (MediaTypeID media) = st (MediaTypeID media)"
    "filter (\<lambda>x. x = MediaTypeID media) (updates r1) = []"
    "m_state out (MediaTypeID media) = state r2 (MediaTypeID media)"
    "filter (\<lambda>x. x = MediaTypeID media) (m_updates out) = filter (\<lambda>x. x = MediaTypeID media) (updates r2)"
    "set (posted r2) \<subseteq> set (m_posted out)"
proof -
  let ?k = "MediaTypeID media"
  let ?r3 = "media_loop cfg sl (now env) (worlds env) (Suc (length pre)) post r2"
  have loop: "media_loop cfg sl (now env) (worlds env) 0 (pre @ media # post) r0 = ?r3"
    by (simp add: media_loop_append r1_def r2_def)
  have out: "m_state out = state ?r3" "m_updates out = updates ?r3" "m_posted out = posted ?r3"
    using fetch loop by (simp_all add: out_def processMediaTypes_def Let_def r0_def)
  show "state r1 ?k = st ?k" "filter (\<lambda>x. x = ?k) (updates r1) = []"
    using media_loop_other [OF uniq(1), of cfg sl "now env" "worlds env" 0 r0]
    by (simp_all add: r1_def r0_def)
  show "m_state out ?k = state r2 ?k"
    "filter (\<lambda>x. x = ?k) (m_updates out) = filter (\<lambda>x. x = ?k) (updates r2)"
    using media_loop_other [OF uniq(2), of cfg sl "now env" "worlds env" "Suc (length pre)" r2]
    by (simp_all add: out)
  obtain new where "posted ?r3 = posted r2 @ new"
    using media_loop_posted_prefix by blast
  then show "set (posted r2) \<subseteq> set (m_posted out)"
    by (simp add: out)
qed

lemma occurs_once:
  assumes "occurrences k ms = [media]"
  obtains pre post where "ms = pre @ media # post" "MediaTypeID media = k"
    "k \<notin> MediaTypeID ` set pre" "k \<notin> MediaTypeID ` set post" "position k ms = length pre"
proof -
  from assms obtain pre post where ms: "ms = pre @ media # post"
    and pre: "\<forall>u \<in> set pre. MediaTypeID u \<noteq> k" and k: "MediaTypeID media = k"
    and post: "[] = filter (\<lambda>m. MediaTypeID m = k) post"
    unfolding occurrences_def filter_eq_Cons_iff by blast
  from post have post': "k \<notin> MediaTypeID ` set post"
    by (metis (mono_tags, lifting) filter_empty_conv imageE)
  from pre have pre': "k \<notin> MediaTypeID ` set pre" by auto
  have "takeWhile (\<lambda>m. MediaTypeID m \<noteq> k) ms = pre"
    using pre k by (simp add: ms takeWhile_append2)
  then have "position k ms = length pre" by (simp add: position_def)
  with ms k pre' post' show ?thesis using that by blast
qed

lemma tracked_early:
  fixes cfg :: Config and sl :: bool and env :: media_env and st :: MediaState
  assumes fetch: "getMediaTypes (media_reply env) = Inr ms"
    and once: "occurrences k ms = [media]"
    and down: "Status media = ''1''"
    and tracked: "st k = Some firstSeen"
    and early: "Sub (now env) firstSeen < OffDuration cfg"
  defines "out \<equiv> processMediaTypes cfg sl env st"
  shows "m_state out k = Some firstSeen"
    "filter (\<lambda>x. x = k) (m_updates out) = []"
    "MattermostWebhook cfg \<noteq> '''' \<Longrightarrow> 30 \<le> Minutes (Since (clock (worlds env (position k ms))) firstSeen) \<Longrightarrow>
       Reminder (MediaType.Name media) (Round (Sub (now env) firstSeen) Minute)
         (Round (dminus (OffDuration cfg) (Sub (now env) firstSeen)) Minute) \<in> set (m_posted out)"
proof -
  from once obtain pre post where ms: "ms = pre @ media # post" and k: "MediaTypeID media = k"
    and pre: "k \<notin> MediaTypeID ` set pre" and post: "k \<notin> MediaTypeID ` set post"
    and pos: "position k ms = length pre"
    by (rule occurs_once)
  let ?r0 = "\<lparr>state = st, stateChanged = False, foundDisabled = False,
              posted = [], sysmsgs = [], updates = []\<rparr>"
  let ?r1 = "media_loop cfg sl (now env) (worlds env) 0 pre ?r0"
  let ?r2 = "media_iter cfg sl (now env) (worlds env (length pre)) media ?r1"
  note at = cycle_at_channel [OF fetch [unfolded ms] pre [folded k] post [folded k], of cfg sl st]
  have r1: "state ?r1 (MediaTypeID media) = Some firstSeen"
    using at(1) tracked k by simp
  note it = media_iter_early [OF down r1 early, of sl "worlds env (length pre)"]
  show "m_state out k = Some firstSeen"
    using at(3) it(1) r1 k by (simp add: out_def)
  show "filter (\<lambda>x. x = k) (m_updates out) = []"
    using at(4) at(2) it(2) k by (simp add: out_def)
  show "Reminder (MediaType.Name media) (Round (Sub (now env) firstSeen) Minute)
         (Round (dminus (OffDuration cfg) (Sub (now env) firstSeen)) Minute) \<in> set (m_posted out)"
    if "MattermostWebhook cfg \<noteq> ''''" "30 \<le> Minutes (Since (clock (worlds env (position k ms))) firstSeen)"
    using at(5) it(5) that pos by (auto simp: out_def)
qed

lemma tracked_due:
  fixes cfg :: Config and sl :: bool and env :: media_env and st :: MediaState
  assumes fetch: "getMediaTypes (media_reply env) = Inr ms"
    and once: "occurrences k ms = [media]"
    and down: "Status media = ''1''"
    and tracked: "st k = Some firstSeen"
    and due: "OffDuration cfg \<le> Sub (now env) firstSeen"
  defines "out \<equiv> processMediaTypes cfg sl env st"
  defines "result \<equiv> enableMediaType (enable_reply (worlds env (position k ms)))"
  shows "m_state out k = (case result of None \<Rightarrow> None | Some err \<Rightarrow> Some firstSeen)"
    "filter (\<lambda>x. x = k) (m_updates out) = [k]"
    "MattermostWebhook cfg \<noteq> '''' \<Longrightarrow>
       (case result of None \<Rightarrow> AutoEnabled (MediaType.Name media)
                     | Some err \<Rightarrow> EnableFailed (MediaType.Name media) err) \<in> set (m_posted out)"
proof -
  from once obtain pre post where ms: "ms = pre @ media # post" and k: "MediaTypeID media = k"
    and pre: "k \<notin> MediaTypeID ` set pre" and post: "k \<notin> MediaTypeID ` set post"
    and pos: "position k ms = length pre"
    by (rule occurs_once)
  let ?r0 = "\<lparr>state = st, stateChanged = False, foundDisabled = False,
              posted = [], sysmsgs = [], updates = []\<rparr>"
  let ?r1 = "media_loop cfg sl (now env) (worlds env) 0 pre ?r0"
  let ?r2 = "media_iter cfg sl (now env) (worlds env (length pre)) media ?r1"
  note at = cycle_at_channel [OF fetch [unfolded ms] pre [folded k] post [folded k], of cfg sl st]
  have r1: "state ?r1 (MediaTypeID media) = Some firstSeen"
    using at(1) tracked k by simp
  note it = media_iter_due [OF down r1 due, of sl "worlds env (length pre)"]
  show "m_state out k = (case result of None \<Rightarrow> None | Some err \<Rightarrow> Some firstSeen)"
    using at(3) it(2) r1 k pos by (simp add: out_def result_def split: option.split)
  show "filter (\<lambda>x. x = k) (m_updates out) = [k]"
    using at(4) at(2) it(1) k by (simp add: out_def)
  show "(case result of None \<Rightarrow> AutoEnabled (MediaType.Name media)
                     | Some err \<Rightarrow> EnableFailed (MediaType.Name media) err) \<in> set (m_posted out)"
    if "MattermostWebhook cfg \<noteq> ''''"
    using at(5) it(3) that pos by (auto simp: out_def result_def)
qed

lemma fetched_Inr:
  "occurrences k (fetched env) = [media] \<Longrightarrow> getMediaTypes (media_reply env) = Inr (fetched env)"
  by (cases "getMediaTypes (media_reply env)") (simp_all add: fetched_def occurrences_def)

lemma reminder_due_cycle:
  assumes tracked: "st k = Some firstSeen" and hook: "MattermostWebhook cfg \<noteq> ''''"
    and range: "OffDuration cfg \<le> maxDuration"
    and due: "reminder_due cfg k firstSeen env"
  shows "\<forall>media \<in> set (occurrences k (fetched env)).
           reminder cfg firstSeen env media \<in> set (m_posted (processMediaTypes cfg sl env st))"
    "m_state (processMediaTypes cfg sl env st) k = Some firstSeen"
proof -
  from due obtain media where once: "occurrences k (fetched env) = [media]"
    and down: "Status media = ''1''"
    and half: "30 * Minute \<le> now env - firstSeen"
    and early: "now env - firstSeen < OffDuration cfg"
    and clock: "now env \<le> clock (worlds env (position k (fetched env)))"
    by (auto simp: reminder_due_def split: list.splits)
  note fetch = fetched_Inr [OF once]
  have exact: "Sub (now env) firstSeen = now env - firstSeen"
    using half early range by (intro Sub_exact) (simp_all add: Minute_def minDuration_def)
  have "Sub (now env) firstSeen \<le> Since (clock (worlds env (position k (fetched env)))) firstSeen"
    unfolding Since_def by (rule Sub_mono [OF clock])
  with half exact
  have late: "30 \<le> Minutes (Since (clock (worlds env (position k (fetched env)))) firstSeen)"
    by (simp add: Minutes_ge_30)
  from early exact have early': "Sub (now env) firstSeen < OffDuration cfg" by simp
  from tracked_early(3) [where st = st and k = k and sl = sl, OF fetch once down tracked early' hook late]
  show "\<forall>media \<in> set (occurrences k (fetched env)).
           reminder cfg firstSeen env media \<in> set (m_posted (processMediaTypes cfg sl env st))"
    by (simp add: once reminder_def exact)
  show "m_state (processMediaTypes cfg sl env st) k = Some firstSeen"
    by (rule tracked_early(1) [where st = st and k = k, OF fetch once down tracked early'])
qed

lemmas ex_simps = ex_cfg_def email_down_def world_ok_def world_fail_def media_cycle_env_def
  groups_down_def cycle_at_def occurrences_def position_def fetched_def getMediaTypes_def
  enableMediaType_def Sub_def Minute_def minDuration_def maxDuration_def

subsection \<open>A tracked channel over many cycles\<close>

lemma count_list_filter: "count_list xs k = length (filter (\<lambda>x. x = k) xs)"
  by (induction xs) auto

lemma media_iter_detect:
  assumes "Status media = ''1''" "state r (MediaTypeID media) = None"
  shows "state (media_iter cfg sl t w media r) = (state r)(MediaTypeID media \<mapsto> t)"
    "updates (media_iter cfg sl t w media r) = updates r"
  using assms
  by (simp_all add: media_iter_def Let_def notify_def syslog_write_def)

lemma untracked_down:
  fixes cfg :: Config and sl :: bool and env :: media_env and st :: MediaState
  assumes fetch: "getMediaTypes (media_reply env) = Inr ms"
    and once: "occurrences k ms = [media]"
    and down: "Status media = ''1''"
    and untracked: "st k = None"
  defines "out \<equiv> processMediaTypes cfg sl env st"
  shows "m_state out k = Some (now env)"
    "filter (\<lambda>x. x = k) (m_updates out) = []"
proof -
  from once obtain pre post where ms: "ms = pre @ media # post" and k: "MediaTypeID media = k"
    and pre: "k \<notin> MediaTypeID ` set pre" and post: "k \<notin> MediaTypeID ` set post"
    by (rule occurs_once)
  let ?r0 = "\<lparr>state = st, stateChanged = False, foundDisabled = False,
              posted = [], sysmsgs = [], updates = []\<rparr>"
  let ?r1 = "media_loop cfg sl (now env) (worlds env) 0 pre ?r0"
  note at = cycle_at_channel [OF fetch [unfolded ms] pre [folded k] post [folded k], of cfg sl st]
  have r1: "state ?r1 (MediaTypeID media) = None"
    using at(1) untracked k by simp
  note it = media_iter_detect [OF down r1, of cfg sl "now env" "worlds env (length pre)"]
  show "m_state out k = Some (now env)"
    using at(3) it(1) k by (simp add: out_def)
  show "filter (\<lambda>x. x = k) (m_updates out) = []"
    using at(4) at(2) it(2) k by (simp add: out_def)
qed

lemma due_iff:
  assumes "minDuration < off" "off \<le> maxDuration"
  shows "off \<le> Sub t T \<longleftrightarrow> T + off \<le> t"
  using assms by (auto simp: Sub_def Let_def)

lemma observed_downD:
  assumes "observed_down k env"
  obtains media where "getMediaTypes (media_reply env) = Inr (fetched env)"
    "occurrences k (fetched env) = [media]" "Status media = ''1''"
proof -
  from assms obtain media where once: "occurrences k (fetched env) = [media]"
    and down: "Status media = ''1''"
    by (auto simp: observed_down_def split: list.splits)
  from fetched_Inr [OF once] once down show ?thesis using that by blast
qed

text \<open>One cycle on a channel that is tracked and observed disabled.\<close>

lemma tracked_cycle:
  fixes cfg :: Config and sl :: bool and env :: media_env and st :: MediaState
  assumes range: "minDuration < OffDuration cfg" "OffDuration cfg \<le> maxDuration"
    and tracked: "st k = Some T"
    and down: "observed_down k env"
  defines "out \<equiv> processMediaTypes cfg sl env st"
  shows "count_list (m_updates out) k = (if T + OffDuration cfg \<le> now env then 1 else 0)"
    "m_state out k = (if T + OffDuration cfg \<le> now env \<and> enable_ok k env then None else Some T)"
proof -
  from down obtain media where fetch: "getMediaTypes (media_reply env) = Inr (fetched env)"
    and once: "occurrences k (fetched env) = [media]" and st: "Status media = ''1''"
    by (rule observed_downD)
  show "count_list (m_updates out) k = (if T + OffDuration cfg \<le> now env then 1 else 0)"
  proof (cases "T + OffDuration cfg \<le> now env")
    case True
    then have "OffDuration cfg \<le> Sub (now env) T" using range by (simp add: due_iff)
    from tracked_due(2) [where st = st and k = k and sl = sl, OF fetch once st tracked this] True
    show ?thesis by (simp add: count_list_filter out_def)
  next
    case False
    then have "Sub (now env) T < OffDuration cfg" using range by (simp add: due_iff not_le [symmetric])
    from tracked_early(2) [where st = st and k = k and sl = sl, OF fetch once st tracked this] False
    show ?thesis by (simp add: count_list_filter out_def)
  qed
  show "m_state out k = (if T + OffDuration cfg \<le> now env \<and> enable_ok k env then None else Some T)"
  proof (cases "T + OffDuration cfg \<le> now env")
    case True
    then have "OffDuration cfg \<le> Sub (now env) T" using range by (simp add: due_iff)
    from tracked_due(1) [where st = st and k = k and sl = sl, OF fetch once st tracked this] True
    show ?thesis by (simp add: out_def enable_ok_def split: option.splits)
  next
    case False
    then have "Sub (now env) T < OffDuration cfg" using range by (simp add: due_iff not_le [symmetric])
    from tracked_early(1) [where st = st and k = k and sl = sl, OF fetch once st tracked this] False
    show ?thesis by (simp add: out_def)
  qed
qed

lemma attempts_Cons_count:
  "count_list (attempts (out # outs)) k =
     count_list (m_updates (media_out out)) k + count_list (attempts outs) k"
  by (simp add: count_list_filter)

lemma tracked_run:
  assumes range: "minDuration < OffDuration cfg" "OffDuration cfg \<le> maxDuration"
    and tracked: "media_state s k = Some T"
    and down: "\<forall>env \<in> set envs. observed_down k (media_env env)"
    and nosucc: "\<forall>env \<in> set (butlast envs).
        T + OffDuration cfg \<le> now (media_env env) \<longrightarrow> \<not> enable_ok k (media_env env)"
  shows "list_all2 (\<lambda>env out. count_list (m_updates (media_out out)) k =
             (if T + OffDuration cfg \<le> now (media_env env) then 1 else 0))
           envs (snd (main_loop cfg sl envs s))"
    "count_list (attempts (snd (main_loop cfg sl envs s))) k =
       length (filter (\<lambda>env. T + OffDuration cfg \<le> now (media_env env)) envs)"
    "media_state (fst (main_loop cfg sl envs s)) k =
       (if envs \<noteq> [] \<and> T + OffDuration cfg \<le> now (media_env (last envs)) \<and>
           enable_ok k (media_env (last envs))
        then None else Some T)"
  using tracked down nosucc
proof (induction envs arbitrary: s)
  case Nil
  {
    case 1 show ?case by simp
  next
    case 2 show ?case by simp
  next
    case 3 then show ?case by simp
  }
next
  case (Cons env envs)
  let ?s1 = "fst (main_cycle cfg sl env s)"
  let ?out = "processMediaTypes cfg sl (media_env env) (media_state s)"
  {
    fix s :: main_state
    assume tr: "media_state s k = Some T"
      and dn: "\<forall>e \<in> set (env # envs). observed_down k (media_env e)"
      and ns: "\<forall>e \<in> set (butlast (env # envs)).
        T + OffDuration cfg \<le> now (media_env e) \<longrightarrow> \<not> enable_ok k (media_env e)"
    let ?s1 = "fst (main_cycle cfg sl env s)"
    from dn have d0: "observed_down k (media_env env)" by simp
    note cyc = tracked_cycle [where st = "media_state s" and k = k and sl = sl, OF range tr d0]
    have "list_all2 (\<lambda>env out. count_list (m_updates (media_out out)) k =
             (if T + OffDuration cfg \<le> now (media_env env) then 1 else 0))
           (env # envs) (snd (main_loop cfg sl (env # envs) s))
       \<and> count_list (attempts (snd (main_loop cfg sl (env # envs) s))) k =
           length (filter (\<lambda>env. T + OffDuration cfg \<le> now (media_env env)) (env # envs))
       \<and> media_state (fst (main_loop cfg sl (env # envs) s)) k =
           (if env # envs \<noteq> [] \<and> T + OffDuration cfg \<le> now (media_env (last (env # envs))) \<and>
               enable_ok k (media_env (last (env # envs)))
            then None else Some T)"
    proof (cases "envs = []")
      case True
      with cyc show ?thesis
        by (simp add: main_loop_Cons main_cycle_media attempts_Cons_count count_list_filter
            del: main_loop.simps(2))
    next
      case False
      with ns have "T + OffDuration cfg \<le> now (media_env env) \<longrightarrow> \<not> enable_ok k (media_env env)"
        by simp
      with cyc(2) have tr1: "media_state ?s1 k = Some T"
        by (auto simp: main_cycle_media)
      from dn have dn1: "\<forall>e \<in> set envs. observed_down k (media_env e)" by simp
      from ns False have ns1: "\<forall>e \<in> set (butlast envs).
          T + OffDuration cfg \<le> now (media_env e) \<longrightarrow> \<not> enable_ok k (media_env e)" by simp
      note ih = Cons.IH [where s = ?s1, OF tr1 dn1 ns1]
      from ih cyc(1) False show ?thesis
        by (simp add: main_loop_Cons main_cycle_media attempts_Cons_count
            del: main_loop.simps(2) attempts.simps)
    qed
  }
  note step = this
  {
    case 1 from step [OF 1] show ?case by blast
  next
    case 2 from step [OF 2] show ?case by blast
  next
    case 3 from step [OF 3] show ?case by blast
  }
qed

subsection \<open>Running a cycle twice\<close>

lemma media_iter_settled:
  assumes "settled cfg t (state r) media"
  shows "state (media_iter cfg sl t w media r) = state r"
    "stateChanged (media_iter cfg sl t w media r) = stateChanged r"
    "updates (media_iter cfg sl t w media r) = updates r"
    "sysmsgs (media_iter cfg sl t w media r) = sysmsgs r"
    "\<exists>new. posted (media_iter cfg sl t w media r) = posted r @ new \<and> list_all is_reminder new"
  using assms
  by (auto simp: settled_def media_iter_def Let_def notify_def sendMattermostNotification_eq
      is_reminder_def split: option.splits if_splits)

lemma media_loop_settled:
  assumes "\<forall>media \<in> set ms. settled cfg t (state r) media"
  shows "state (media_loop cfg sl t ws i ms r) = state r \<and>
    stateChanged (media_loop cfg sl t ws i ms r) = stateChanged r \<and>
    updates (media_loop cfg sl t ws i ms r) = updates r \<and>
    sysmsgs (media_loop cfg sl t ws i ms r) = sysmsgs r \<and>
    (\<exists>new. posted (media_loop cfg sl t ws i ms r) = posted r @ new \<and> list_all is_reminder new)"
  using assms
proof (induction ms arbitrary: i r)
  case Nil
  then show ?case by simp
next
  case (Cons m ms)
  let ?r = "media_iter cfg sl t (ws i) m r"
  from Cons.prems have m: "settled cfg t (state r) m" by simp
  note it = media_iter_settled [OF m, of sl "ws i"]
  from Cons.prems it(1) have "\<forall>media \<in> set ms. settled cfg t (state ?r) media" by simp
  from Cons.IH [OF this, of "Suc i"] it show ?case
    by auto
qed

lemma distinct_split:
  assumes "distinct (map MediaTypeID ms)" "media \<in> set ms"
  obtains pre post where "ms = pre @ media # post"
    "MediaTypeID media \<notin> MediaTypeID ` set pre" "MediaTypeID media \<notin> MediaTypeID ` set post"
proof -
  from assms(2) obtain pre post where ms: "ms = pre @ media # post"
    by (auto dest: split_list)
  with assms(1) have "MediaTypeID media \<notin> MediaTypeID ` set pre" "MediaTypeID media \<notin> MediaTypeID ` set post"
    by auto
  with ms show ?thesis using that by blast
qed

lemma media_iter_own_entry:
  assumes "MediaTypeID media \<notin> set (updates (media_iter cfg sl t w media r))" "0 < OffDuration cfg"
  shows "settled cfg t (state (media_iter cfg sl t w media r)) media"
  using assms
  by (auto simp: settled_def media_iter_def Let_def notify_def syslog_write_def Sub_def
      minDuration_def maxDuration_def split: option.splits if_splits)

lemma first_run_settles:
  fixes cfg :: Config and sl :: bool and env :: media_env and st :: MediaState
  assumes fetch: "getMediaTypes (media_reply env) = Inr ms"
    and dist: "distinct (map MediaTypeID ms)"
    and pos: "0 < OffDuration cfg"
    and quiet: "m_updates (processMediaTypes cfg sl env st) = []"
    and m: "media \<in> set ms"
  shows "settled cfg (now env) (m_state (processMediaTypes cfg sl env st)) media"
proof -
  from dist m obtain pre post where ms: "ms = pre @ media # post"
    and pre: "MediaTypeID media \<notin> MediaTypeID ` set pre"
    and post: "MediaTypeID media \<notin> MediaTypeID ` set post"
    by (rule distinct_split)
  let ?r0 = "\<lparr>state = st, stateChanged = False, foundDisabled = False,
              posted = [], sysmsgs = [], updates = []\<rparr>"
  let ?r1 = "media_loop cfg sl (now env) (worlds env) 0 pre ?r0"
  let ?r2 = "media_iter cfg sl (now env) (worlds env (length pre)) media ?r1"
  note at = cycle_at_channel [OF fetch [unfolded ms] pre post, of cfg sl st]
  from at(4) quiet have "filter (\<lambda>x. x = MediaTypeID media) (updates ?r2) = []" by simp
  then have "MediaTypeID media \<notin> set (updates ?r2)"
    by (auto simp: filter_empty_conv)
  from media_iter_own_entry [OF this pos]
  have "settled cfg (now env) (state ?r2) media" .
  with at(3) show ?thesis
    by (simp add: settled_def)
qed

lemmas cycle_simps = main_init_def loadState_def loadGroupState_def main_cycle_def processMediaTypes_def
  processUserGroups_def getUserGroups_def media_iter_def notify_def syslog_write_def
  sendMattermostNotification_eq Let_def ex_simps

subsection \<open>The structural diff\<close>

lemma elements_equal_iff: "length a = length b \<Longrightarrow> elements_equal a b \<longleftrightarrow> a = b"
  by (induction a b rule: elements_equal.induct) auto

lemma stringSlicesEqual_iff: "stringSlicesEqual a b \<longleftrightarrow> a = b"
  by (auto simp: stringSlicesEqual_def elements_equal_iff)

lemma compare_curr_eq:
  "compare_curr prev current ks changes = changes @ concat (map (curr_changes prev current) ks)"
  by (induction ks arbitrary: changes)
     (auto simp: curr_changes_def stringSlicesEqual_iff Let_def split: option.splits)

lemma compare_prev_eq:
  "compare_prev prev current ks changes = changes @ concat (map (prev_changes prev current) ks)"
  by (induction ks arbitrary: changes) (auto simp: prev_changes_def split: option.splits)

lemma compareGroupStates_eq:
  "compareGroupStates prev current kc kp =
     concat (map (curr_changes prev current) kc) @ concat (map (prev_changes prev current) kp)"
  by (simp add: compareGroupStates_def compare_curr_eq compare_prev_eq)

lemma mset_concat_map: "mset (concat (map f ks)) = (\<Sum>k\<in>#mset ks. mset (f k))"
  by (induction ks) simp_all

lemma sum_mset_single_if:
  "(\<Sum>k\<in>#M. if P k then {#g k#} else {#}) = image_mset g (filter_mset P M)"
  by (induction M) simp_all

lemma stored_set_eq_iff:
  "stored_set a \<Longrightarrow> stored_set b \<Longrightarrow> a = b \<longleftrightarrow> set a = set b"
  by (auto simp: stored_set_def intro: sorted_distinct_set_unique)

lemma mset_curr_changes:
  assumes "\<forall>k p c. prev k = Some p \<longrightarrow> current k = Some c \<longrightarrow> stored_set (Users p) \<and> stored_set (Users c)"
  shows "mset (curr_changes prev current k) =
     (if k \<in> added_ids prev current then {#Added (UserGroup.Name (the (current k)))#} else {#}) +
     (if k \<in> renamed_ids prev current
      then {#Renamed (UserGroup.Name (the (prev k))) (UserGroup.Name (the (current k)))#} else {#}) +
     (if k \<in> regrouped_ids prev current
      then {#MembersChanged (UserGroup.Name (the (current k)))#} else {#})"
proof (cases "current k")
  case None
  then show ?thesis
    by (auto simp: curr_changes_def added_ids_def renamed_ids_def regrouped_ids_def)
next
  case (Some c)
  show ?thesis
  proof (cases "prev k")
    case None
    with Some show ?thesis
      by (auto simp: curr_changes_def added_ids_def renamed_ids_def regrouped_ids_def)
  next
    case (Some p)
    with \<open>current k = Some c\<close> assms have "stored_set (Users p)" "stored_set (Users c)" by blast+
    then have "Users p = Users c \<longleftrightarrow> set (Users p) = set (Users c)"
      by (rule stored_set_eq_iff)
    with Some \<open>current k = Some c\<close> show ?thesis
      by (auto simp: curr_changes_def added_ids_def renamed_ids_def regrouped_ids_def)
  qed
qed

lemma mset_prev_changes:
  "mset (prev_changes prev current k) =
     (if k \<in> removed_ids prev current then {#Removed (UserGroup.Name (the (prev k)))#} else {#})"
  by (auto simp: prev_changes_def removed_ids_def split: option.splits)

lemma filter_mset_keys:
  assumes "distinct ks" "set ks = A" "B \<subseteq> A"
  shows "filter_mset (\<lambda>k. k \<in> B) (mset ks) = mset_set B"
proof -
  have "mset ks = mset_set A" using assms by (simp add: mset_set_set [symmetric])
  moreover have "finite A" using assms by auto
  moreover have "{x \<in> A. x \<in> B} = B" using assms by auto
  ultimately show ?thesis by (simp add: filter_mset_mset_set)
qed

lemma compare_as_specified:
  assumes kc: "distinct kc" "set kc = dom current" and kp: "distinct kp" "set kp = dom prev"
    and sets: "\<forall>k p c. prev k = Some p \<longrightarrow> current k = Some c \<longrightarrow> stored_set (Users p) \<and> stored_set (Users c)"
  shows "mset (compareGroupStates prev current kc kp) = specified_changes prev current"
proof -
  have a: "added_ids prev current \<subseteq> dom current" "renamed_ids prev current \<subseteq> dom current"
    "regrouped_ids prev current \<subseteq> dom current" "removed_ids prev current \<subseteq> dom prev"
    by (auto simp: added_ids_def renamed_ids_def regrouped_ids_def removed_ids_def)
  have "mset (concat (map (curr_changes prev current) kc)) =
      image_mset (\<lambda>k. Added (UserGroup.Name (the (current k)))) (mset_set (added_ids prev current)) +
      image_mset (\<lambda>k. Renamed (UserGroup.Name (the (prev k))) (UserGroup.Name (the (current k))))
        (mset_set (renamed_ids prev current)) +
      image_mset (\<lambda>k. MembersChanged (UserGroup.Name (the (current k))))
        (mset_set (regrouped_ids prev current))"
    using a
    by (simp add: mset_concat_map mset_curr_changes [OF sets] sum_mset.distrib sum_mset_single_if
        filter_mset_keys [OF kc])
  moreover have "mset (concat (map (prev_changes prev current) kp)) =
      image_mset (\<lambda>k. Removed (UserGroup.Name (the (prev k)))) (mset_set (removed_ids prev current))"
    by (simp add: mset_concat_map mset_prev_changes sum_mset_single_if filter_mset_keys [OF kp a(4)])
  ultimately show ?thesis
    by (simp add: compareGroupStates_eq specified_changes_def)
qed

lemma collect_groups_inv:
  assumes "\<forall>k g. st k = Some g \<longrightarrow> P k g"
    and "\<forall>g \<in> set gs. P (gr_ID g) \<lparr>ID = gr_ID g, Name = gr_Name g, Users = sort (gr_Users g)\<rparr>"
  shows "\<forall>k g. collect_groups gs st k = Some g \<longrightarrow> P k g"
  using assms
proof (induction gs arbitrary: st)
  case Nil
  then show ?case by simp
next
  case (Cons a gs)
  show ?case
    unfolding collect_groups.simps
  proof (rule Cons.IH)
    show "\<forall>k g. (st(gr_ID a \<mapsto> \<lparr>ID = gr_ID a, Name = gr_Name a, Users = sort (gr_Users a)\<rparr>)) k = Some g
        \<longrightarrow> P k g"
      using Cons.prems by auto
    show "\<forall>g \<in> set gs. P (gr_ID g) \<lparr>ID = gr_ID g, Name = gr_Name g, Users = sort (gr_Users g)\<rparr>"
      using Cons.prems by simp
  qed
qed

lemma collect_groups_dom: "dom (collect_groups gs st) = dom st \<union> gr_ID ` set gs"
  by (induction gs arbitrary: st) auto

lemma getUserGroups_Inr:
  assumes "getUserGroups reply = Inr current"
  shows "current = collect_groups (rpc_result reply) Map.empty"
  using assms by (auto simp: getUserGroups_def rpc_result_def split: rpc_reply.splits if_splits)

lemma getUserGroups_wf:
  assumes "getUserGroups reply = Inr current" "current k = Some g"
  shows "ID g = k" "sorted (Users g)"
    "(\<forall>r \<in> set (rpc_result reply). distinct (gr_Users r)) \<Longrightarrow> stored_set (Users g)"
proof -
  note cur = getUserGroups_Inr [OF assms(1)]
  have "\<forall>k g. collect_groups (rpc_result reply) Map.empty k = Some g \<longrightarrow> ID g = k \<and> sorted (Users g)"
    by (rule collect_groups_inv) simp_all
  with assms(2) cur show "ID g = k" "sorted (Users g)" by auto
  assume "\<forall>r \<in> set (rpc_result reply). distinct (gr_Users r)"
  then have "\<forall>k g. collect_groups (rpc_result reply) Map.empty k = Some g \<longrightarrow> stored_set (Users g)"
    by (intro collect_groups_inv) (simp_all add: stored_set_def)
  with assms(2) cur show "stored_set (Users g)" by auto
qed

lemma size_specified_changes:
  "size (specified_changes prev current) =
     card (added_ids prev current) + card (renamed_ids prev current) +
     card (regrouped_ids prev current) + card (removed_ids prev current)"
  by (simp add: specified_changes_def)

lemma ex_current: "getUserGroups (Reply 0 [] [] ex_result) = Inr ex_current"
  by (simp add: getUserGroups_def ex_result_def ex_current_def fun_upd_twist)

subsection \<open>One cycle of the detector\<close>

lemma report_changes_eq:
  "report_changes cfg sl hooks i cs (sent, logged) =
     (sent @ (if MattermostWebhook cfg \<noteq> '''' then map GroupChange cs else []),
      logged @ (if sl then map SysGroupChange cs else []))"
  by (induction cs arbitrary: i sent logged) (simp_all add: sendMattermostNotification_eq)

lemma rebuild_prev: "store_all (delete_stale prev current) current = current"
  by (rule ext) (simp add: store_all_def delete_stale_def split: option.split)

lemma no_changes_same:
  assumes none: "compareGroupStates prev current kc kp = []"
    and kc: "set kc = dom current" and kp: "set kp = dom prev"
    and idp: "\<forall>k p. prev k = Some p \<longrightarrow> ID p = k"
    and idc: "\<forall>k c. current k = Some c \<longrightarrow> ID c = k"
  shows "prev = current"
proof (rule ext)
  fix k
  from none have c: "\<forall>k \<in> set kc. curr_changes prev current k = []"
    and p: "\<forall>k \<in> set kp. prev_changes prev current k = []"
    by (simp_all add: compareGroupStates_eq)
  show "prev k = current k"
  proof (cases "current k")
    case None
    show ?thesis
    proof (cases "prev k")
      case (Some g)
      then have "k \<in> set kp" using kp by auto
      with p Some None show ?thesis by (auto simp: prev_changes_def)
    qed (simp add: None)
  next
    case (Some c')
    then have "k \<in> set kc" using kc by auto
    with c have e: "curr_changes prev current k = []" by simp
    with Some obtain p' where pk: "prev k = Some p'"
      by (cases "prev k") (auto simp: curr_changes_def)
    with e Some have "UserGroup.Name p' = UserGroup.Name c'" "Users p' = Users c'"
      by (auto simp: curr_changes_def split: if_splits)
    moreover have "ID p' = ID c'" using idp idc pk Some by auto
    ultimately have "p' = c'" by simp
    with pk Some show ?thesis by simp
  qed
qed

subsection \<open>The webhook over a run\<close>

lemma processMediaTypes_webhook_cfg:
  "m_state (processMediaTypes (cfg\<lparr>MattermostWebhook := x\<rparr>) sl env st) = m_state (processMediaTypes cfg sl env st)"
  "m_updates (processMediaTypes (cfg\<lparr>MattermostWebhook := x\<rparr>) sl env st) = m_updates (processMediaTypes cfg sl env st)"
  using processMediaTypes_webhook(1,2) [where cfg = cfg and x = x and sl = sl and env = env
      and h = "\<lambda>j. hook (worlds env j)" and st = st]
  by simp_all

lemma processUserGroups_webhook:
  "g_prev (processUserGroups (cfg\<lparr>MattermostWebhook := x\<rparr>) sl env prev b) = g_prev (processUserGroups cfg sl env prev b)"
  by (simp add: processUserGroups_def Let_def split: sum.split)

lemma main_cycle_webhook:
  "fst (main_cycle (cfg\<lparr>MattermostWebhook := x\<rparr>) sl env s) = fst (main_cycle cfg sl env s)"
  "m_state (media_out (snd (main_cycle (cfg\<lparr>MattermostWebhook := x\<rparr>) sl env s))) =
     m_state (media_out (snd (main_cycle cfg sl env s)))"
  "m_updates (media_out (snd (main_cycle (cfg\<lparr>MattermostWebhook := x\<rparr>) sl env s))) =
     m_updates (media_out (snd (main_cycle cfg sl env s)))"
  by (simp_all add: main_cycle_def Let_def processMediaTypes_webhook_cfg processUserGroups_webhook)

lemma main_loop_webhook:
  "fst (main_loop (cfg\<lparr>MattermostWebhook := x\<rparr>) sl envs s) = fst (main_loop cfg sl envs s) \<and>
   map (\<lambda>out. m_state (media_out out)) (snd (main_loop (cfg\<lparr>MattermostWebhook := x\<rparr>) sl envs s)) =
     map (\<lambda>out. m_state (media_out out)) (snd (main_loop cfg sl envs s)) \<and>
   map (\<lambda>out. m_updates (media_out out)) (snd (main_loop (cfg\<lparr>MattermostWebhook := x\<rparr>) sl envs s)) =
     map (\<lambda>out. m_updates (media_out out)) (snd (main_loop cfg sl envs s))"
proof (induction envs arbitrary: s)
  case Nil
  then show ?case by simp
next
  case (Cons env envs)
  from Cons.IH [of "fst (main_cycle cfg sl env s)"] show ?case
    by (simp add: main_loop_Cons main_cycle_webhook del: main_loop.simps)
qed

section \<open>Properties of the Media Remediation Engine\<close>

text \<open>
  C7. When the channel list cannot be obtained (the POST fails, the body does not decode,
  or the remote reports a non-zero error code), the cycle of the engine ends at once: the
  watch-state is the one it was given, nothing is written, no alert is posted, nothing
  goes to syslog and no channel is enabled. The poll loop goes on: it runs all of its
  cycles, and the next one starts the engine again on the unchanged watch-state.
\<close>

theorem fetch_failure_aborts_cycle:
  assumes "media_reply (media_env env) = PostFailed \<or> media_reply (media_env env) = BadBody \<or>
           (\<exists>code message data result.
              media_reply (media_env env) = Reply code message data result \<and> code \<noteq> 0)"
  shows "processMediaTypes cfg sysLogger (media_env env) (media_state s) =
           \<lparr>m_state = media_state s, m_written = None, m_posted = [], m_sysmsgs = [], m_updates = []\<rparr>
         \<and> length (snd (main_loop cfg sysLogger (env # env' # rest) s)) = 2 + length rest
         \<and> media_out (snd (main_loop cfg sysLogger (env # env' # rest) s) ! 1) =
             processMediaTypes cfg sysLogger (media_env env') (media_state s)"
proof -
  obtain err where err: "getMediaTypes (media_reply (media_env env)) = Inl err"
    using getMediaTypes_fails [OF assms] by blast
  have one: "processMediaTypes cfg sysLogger (media_env env) (media_state s) =
      \<lparr>m_state = media_state s, m_written = None, m_posted = [], m_sysmsgs = [], m_updates = []\<rparr>"
    by (rule processMediaTypes_fetch_failed [OF err])
  have two: "length (snd (main_loop cfg sysLogger (env # env' # rest) s)) = 2 + length rest"
    by (simp only: main_loop_length) simp
  have "media_state (fst (main_cycle cfg sysLogger env s)) = media_state s"
    by (simp add: main_cycle_media one)
  then have three: "media_out (snd (main_loop cfg sysLogger (env # env' # rest) s) ! 1) =
      processMediaTypes cfg sysLogger (media_env env') (media_state s)"
    by (simp add: main_loop_Cons main_cycle_media del: main_loop.simps)
  from one two three show ?thesis by blast
qed

theorem fetch_failure_aborts_cycle_witness:
  "(let env = \<lparr>media_env = media_cycle_env (Reply 7 ''session'' ''expired'' [email_down]) 100 (world_ok 100),
               group_env = groups_down\<rparr>;
        env' = \<lparr>media_env = media_cycle_env (Reply 0 [] [] [email_down]) 200 (world_ok 200),
                group_env = groups_down\<rparr>;
        s = \<lparr>media_state = [''7'' \<mapsto> 50], groupState = Map.empty, groupStateExisted = True\<rparr>
    in (\<exists>code message data result.
          media_reply (media_env env) = Reply code message data result \<and> code \<noteq> 0)
       \<and> processMediaTypes ex_cfg True (media_env env) (media_state s) =
           \<lparr>m_state = media_state s, m_written = None, m_posted = [], m_sysmsgs = [], m_updates = []\<rparr>
       \<and> length (snd (main_loop ex_cfg True [env, env'] s)) = 2
       \<and> media_out (snd (main_loop ex_cfg True [env, env'] s) ! 1) =
             processMediaTypes ex_cfg True (media_env env') (media_state s))"
  using fetch_failure_aborts_cycle
    [of "\<lparr>media_env = media_cycle_env (Reply 7 ''session'' ''expired'' [email_down]) 100 (world_ok 100),
          group_env = groups_down\<rparr>"
        ex_cfg True
        "\<lparr>media_state = [''7'' \<mapsto> 50], groupState = Map.empty, groupStateExisted = True\<rparr>"
        "\<lparr>media_env = media_cycle_env (Reply 0 [] [] [email_down]) 200 (world_ok 200),
          group_env = groups_down\<rparr>" "[]"]
  by (simp add: Let_def media_cycle_env_def)

text \<open>
  C10. A cycle of the engine leaves alone every entry of the watch-state whose channel id
  is not in the fetched list. Over any number of cycles of the poll loop whose fetched
  lists lack the id \<open>k\<close> (or whose fetch fails), the entry of \<open>k\<close> is after the last
  cycle what it was before the first; each of these cycles on its own leaves it as it
  finds it; and an empty list ends the cycle with nothing done at all.
\<close>

theorem absent_channel_left_alone:
  assumes "\<forall>env \<in> set envs. \<forall>ms. getMediaTypes (media_reply (media_env env)) = Inr ms
             \<longrightarrow> k \<notin> MediaTypeID ` set ms"
  shows "media_state (fst (main_loop cfg sysLogger envs s)) k = media_state s k
         \<and> (\<forall>env \<in> set envs. \<forall>st.
               m_state (processMediaTypes cfg sysLogger (media_env env) st) k = st k)
         \<and> (\<forall>env st. getMediaTypes (media_reply env) = Inr [] \<longrightarrow>
               processMediaTypes cfg sysLogger env st =
                 \<lparr>m_state = st, m_written = None, m_posted = [], m_sysmsgs = [], m_updates = []\<rparr>)"
proof -
  have run: "media_state (fst (main_loop cfg sysLogger envs s)) k = media_state s k"
    using assms
  proof (induction envs arbitrary: s)
    case Nil
    then show ?case by simp
  next
    case (Cons env envs)
    have "media_state (fst (main_cycle cfg sysLogger env s)) k = media_state s k"
      using Cons.prems by (simp add: main_cycle_media processMediaTypes_absent')
    moreover have "media_state (fst (main_loop cfg sysLogger envs (fst (main_cycle cfg sysLogger env s)))) k
        = media_state (fst (main_cycle cfg sysLogger env s)) k"
      using Cons.prems by (intro Cons.IH) simp
    ultimately show ?case
      by (simp add: main_loop_Cons del: main_loop.simps)
  qed
  have each: "\<forall>env \<in> set envs. \<forall>st.
      m_state (processMediaTypes cfg sysLogger (media_env env) st) k = st k"
    using assms by (simp add: processMediaTypes_absent')
  have empty: "\<forall>env st. getMediaTypes (media_reply env) = Inr [] \<longrightarrow>
      processMediaTypes cfg sysLogger env st =
        \<lparr>m_state = st, m_written = None, m_posted = [], m_sysmsgs = [], m_updates = []\<rparr>"
    by (simp add: processMediaTypes_def)
  from run each empty show ?thesis by blast
qed

theorem absent_channel_left_alone_witness:
  "media_state (fst (main_loop ex_cfg True
      [cycle_at 100 (world_ok 100),
       \<lparr>media_env = media_cycle_env (Reply 0 [] [] []) 200 (world_ok 200), group_env = groups_down\<rparr>,
       \<lparr>media_env = media_cycle_env BadBody 300 (world_ok 300), group_env = groups_down\<rparr>,
       cycle_at (100 * Minute) (world_ok (100 * Minute))]
      \<lparr>media_state = [''9'' \<mapsto> 50], groupState = Map.empty, groupStateExisted = True\<rparr>)) ''9''
     = Some 50"
proof -
  let ?envs = "[cycle_at 100 (world_ok 100),
       \<lparr>media_env = media_cycle_env (Reply 0 [] [] []) 200 (world_ok 200), group_env = groups_down\<rparr>,
       \<lparr>media_env = media_cycle_env BadBody 300 (world_ok 300), group_env = groups_down\<rparr>,
       cycle_at (100 * Minute) (world_ok (100 * Minute))]"
  let ?s = "\<lparr>media_state = [''9'' \<mapsto> 50], groupState = Map.empty, groupStateExisted = True\<rparr>"
  have absent: "\<forall>env \<in> set ?envs. \<forall>ms. getMediaTypes (media_reply (media_env env)) = Inr ms
             \<longrightarrow> ''9'' \<notin> MediaTypeID ` set ms"
    by (simp add: cycle_at_def media_cycle_env_def getMediaTypes_def email_down_def)
  from absent_channel_left_alone [where envs = ?envs and k = "''9''" and cfg = ex_cfg
      and sysLogger = True and s = ?s, OF absent]
  show ?thesis by simp
qed

text \<open>
  C9. The webhook does not steer the engine. Run the same cycle once with the
  configuration as it is and once with any other webhook setting (set or empty) and any
  other replies of the webhook: the watch-state after the cycle, the calls of
  \<^verbatim>\<open>mediatype.update\<close>, what is written to the state file and what goes to syslog are the
  same. Only the posted messages can differ. The same holds over a run of the poll loop:
  with another webhook setting the watch-state after every cycle and the calls of
  \<^verbatim>\<open>mediatype.update\<close> of every cycle are the same.
\<close>

theorem webhook_does_not_steer_engine:
  "(let quiet = processMediaTypes cfg sysLogger env st;
        loud = processMediaTypes (cfg\<lparr>MattermostWebhook := url\<rparr>) sysLogger
                 (env\<lparr>worlds := \<lambda>i. (worlds env i)\<lparr>hook := answers i\<rparr>\<rparr>) st
    in m_state loud = m_state quiet \<and> m_updates loud = m_updates quiet \<and>
       m_written loud = m_written quiet \<and> m_sysmsgs loud = m_sysmsgs quiet)
   \<and> (let quiet_run = main_loop cfg sysLogger envs s;
           loud_run = main_loop (cfg\<lparr>MattermostWebhook := url\<rparr>) sysLogger envs s
       in media_state (fst loud_run) = media_state (fst quiet_run) \<and>
          map (\<lambda>out. m_state (media_out out)) (snd loud_run) =
            map (\<lambda>out. m_state (media_out out)) (snd quiet_run) \<and>
          map (\<lambda>out. m_updates (media_out out)) (snd loud_run) =
            map (\<lambda>out. m_updates (media_out out)) (snd quiet_run))"
  using processMediaTypes_webhook [where cfg = cfg and x = url and sl = sysLogger and env = env and h = answers and st = st]
    main_loop_webhook [where cfg = cfg and x = url and sl = sysLogger and envs = envs and s = s]
  by (simp add: Let_def)

text \<open>
  C3. The reminder is sent on every cycle of its window, again and again. Let the channel
  \<open>k\<close> be tracked since \<open>firstSeen\<close>, let a webhook be configured, and let every cycle
  of a run find the channel once in the fetched list, disabled, with
  \<open>elapsed = now - firstSeen\<close> at least 30 minutes and below \<open>OffDuration\<close> (the clock
  not running backwards inside the cycle). Then every one of these cycles posts the
  reminder with the name of the channel, the elapsed and the remaining time (both rounded
  to the minute), and the entry is still there after the last one: nothing remembers
  that a reminder was sent before.
\<close>

theorem reminder_repeats_every_cycle:
  assumes "media_state s k = Some firstSeen" and "MattermostWebhook cfg \<noteq> ''''"
    and "OffDuration cfg \<le> maxDuration"
    and "\<forall>env \<in> set envs. reminder_due cfg k firstSeen (media_env env)"
  shows "list_all2
           (\<lambda>env out. \<forall>media \<in> set (occurrences k (fetched (media_env env))).
              reminder cfg firstSeen (media_env env) media \<in> set (m_posted (media_out out)))
           envs (snd (main_loop cfg sysLogger envs s))
         \<and> media_state (fst (main_loop cfg sysLogger envs s)) k = Some firstSeen"
  using assms
proof (induction envs arbitrary: s)
  case Nil
  then show ?case by simp
next
  case (Cons env envs)
  from Cons.prems have due: "reminder_due cfg k firstSeen (media_env env)" by simp
  note cyc = reminder_due_cycle [where st = "media_state s" and k = k and sl = sysLogger,
      OF Cons.prems(1) Cons.prems(2) Cons.prems(3) due]
  have "media_state (fst (main_cycle cfg sysLogger env s)) k = Some firstSeen"
    using cyc(2) by (simp add: main_cycle_media)
  from Cons.IH [where s = "fst (main_cycle cfg sysLogger env s)", OF this Cons.prems(2) Cons.prems(3)]
    Cons.prems(4) cyc(1)
  show ?case
    by (simp add: main_loop_Cons main_cycle_media del: main_loop.simps)
qed

theorem reminder_repeats_every_cycle_witness:
  "Reminder ''Email'' (31 * Minute) (29 * Minute) \<in>
     set (m_posted (media_out (snd (main_loop ex_cfg True
       [cycle_at (31 * Minute) (world_ok (31 * Minute)),
        cycle_at (36 * Minute) (world_ok (36 * Minute))]
       \<lparr>media_state = email_tracked, groupState = Map.empty, groupStateExisted = True\<rparr>) ! 0)))
   \<and> Reminder ''Email'' (36 * Minute) (24 * Minute) \<in>
     set (m_posted (media_out (snd (main_loop ex_cfg True
       [cycle_at (31 * Minute) (world_ok (31 * Minute)),
        cycle_at (36 * Minute) (world_ok (36 * Minute))]
       \<lparr>media_state = email_tracked, groupState = Map.empty, groupStateExisted = True\<rparr>) ! 1)))
   \<and> media_state (fst (main_loop ex_cfg True
       [cycle_at (31 * Minute) (world_ok (31 * Minute)),
        cycle_at (36 * Minute) (world_ok (36 * Minute))]
       \<lparr>media_state = email_tracked, groupState = Map.empty, groupStateExisted = True\<rparr>)) ''7''
     = Some 0"
proof -
  let ?e1 = "cycle_at (31 * Minute) (world_ok (31 * Minute))"
  let ?e2 = "cycle_at (36 * Minute) (world_ok (36 * Minute))"
  let ?s = "\<lparr>media_state = email_tracked, groupState = Map.empty, groupStateExisted = True\<rparr>"
  let ?outs = "snd (main_loop ex_cfg True [?e1, ?e2] ?s)"
  let ?P = "\<lambda>env out. \<forall>media \<in> set (occurrences ''7'' (fetched (media_env env))).
              reminder ex_cfg 0 (media_env env) media \<in> set (m_posted (media_out out))"
  have a: "media_state ?s ''7'' = Some 0" by (simp add: email_tracked_def)
  have b: "MattermostWebhook ex_cfg \<noteq> ''''" by (simp add: ex_cfg_def)
  have r: "OffDuration ex_cfg \<le> maxDuration" by (simp add: ex_simps)
  have c: "\<forall>env \<in> set [?e1, ?e2]. reminder_due ex_cfg ''7'' 0 (media_env env)"
    by (simp add: reminder_due_def ex_simps)
  note inst = reminder_repeats_every_cycle [where s = ?s and k = "''7''" and envs = "[?e1, ?e2]"
      and sysLogger = True, OF a b r c]
  from inst have all: "list_all2 ?P [?e1, ?e2] ?outs" by blast
  have "?P ([?e1, ?e2] ! 0) (?outs ! 0)"
    by (rule list_all2_nthD [OF all]) simp
  then have one: "Reminder ''Email'' (31 * Minute) (29 * Minute) \<in> set (m_posted (media_out (?outs ! 0)))"
    by (simp add: reminder_def Round_def dminus_def wrap64_def signed_modulo_int_def ex_simps
        del: main_loop.simps)
  have "?P ([?e1, ?e2] ! 1) (?outs ! 1)"
    by (rule list_all2_nthD [OF all]) simp
  then have two: "Reminder ''Email'' (36 * Minute) (24 * Minute) \<in> set (m_posted (media_out (?outs ! 1)))"
    by (simp add: reminder_def Round_def dminus_def wrap64_def signed_modulo_int_def ex_simps
        del: main_loop.simps)
  from inst one two show ?thesis by blast
qed

text \<open>
  C6. A failed attempt to enable a tracked channel changes nothing in the watch-state.
  Let the channel \<open>k\<close>, tracked since \<open>firstSeen\<close>, be once in the fetched list and
  disabled, with the threshold reached, and let \<^verbatim>\<open>enableMediaType\<close> return the error
  \<open>err\<close>. Then after the cycle the entry of \<open>k\<close> still holds \<open>firstSeen\<close>; the cycle
  has called \<^verbatim>\<open>mediatype.update\<close> for \<open>k\<close> once; the iteration of the channel leaves
  the whole watch-state as it finds it; with a webhook configured the message
  "enable failed" with the name and the error is posted; and the next cycle that finds
  the channel disabled calls \<^verbatim>\<open>mediatype.update\<close> for it again.
\<close>

theorem failed_enable_keeps_entry:
  fixes cfg :: Config and sysLogger :: bool and env env' :: media_env and st :: MediaState
  assumes fetch: "getMediaTypes (media_reply env) = Inr ms"
    and once: "occurrences k ms = [media]"
    and down: "Status media = ''1''"
    and tracked: "st k = Some firstSeen"
    and due: "OffDuration cfg \<le> Sub (now env) firstSeen"
    and failed: "enableMediaType (enable_reply (worlds env (position k ms))) = Some err"
    and fetch': "getMediaTypes (media_reply env') = Inr ms'"
    and once': "occurrences k ms' = [media']"
    and down': "Status media' = ''1''"
    and due': "OffDuration cfg \<le> Sub (now env') firstSeen"
  defines "out \<equiv> processMediaTypes cfg sysLogger env st"
  shows "m_state out k = Some firstSeen
    \<and> filter (\<lambda>x. x = k) (m_updates out) = [k]
    \<and> (\<forall>r. state r k = Some firstSeen \<longrightarrow>
          state (media_iter cfg sysLogger (now env) (worlds env (position k ms)) media r) = state r)
    \<and> (MattermostWebhook cfg \<noteq> '''' \<longrightarrow> EnableFailed (MediaType.Name media) err \<in> set (m_posted out))
    \<and> filter (\<lambda>x. x = k) (m_updates (processMediaTypes cfg sysLogger env' (m_state out))) = [k]"
proof -
  note d = tracked_due [where st = st and k = k and sl = sysLogger, OF fetch once down tracked due]
  have a: "m_state out k = Some firstSeen"
    using d(1) failed by (simp add: out_def)
  have b: "filter (\<lambda>x. x = k) (m_updates out) = [k]"
    using d(2) by (simp add: out_def)
  have k: "MediaTypeID media = k"
    using once by (rule occurs_once)
  have c: "\<forall>r. state r k = Some firstSeen \<longrightarrow>
          state (media_iter cfg sysLogger (now env) (worlds env (position k ms)) media r) = state r"
    using media_iter_due(2) [where cfg = cfg and media = media and t = "now env" and firstSeen = firstSeen
        and sl = sysLogger and w = "worlds env (position k ms)"] down due failed k
    by simp
  have e: "MattermostWebhook cfg \<noteq> '''' \<longrightarrow> EnableFailed (MediaType.Name media) err \<in> set (m_posted out)"
    using d(3) failed by (simp add: out_def)
  have f: "filter (\<lambda>x. x = k) (m_updates (processMediaTypes cfg sysLogger env' (m_state out))) = [k]"
    by (rule tracked_due(2) [where st = "m_state out" and k = k, OF fetch' once' down' a due'])
  from a b c e f show ?thesis by blast
qed

theorem failed_enable_keeps_entry_witness:
  "(let env = media_cycle_env (Reply 0 [] [] [email_down]) (61 * Minute) (world_fail (61 * Minute));
        env' = media_cycle_env (Reply 0 [] [] [email_down]) (66 * Minute) (world_fail (66 * Minute));
        out = processMediaTypes ex_cfg True env [''7'' \<mapsto> 0]
    in OffDuration ex_cfg \<le> Sub (now env) 0 \<and>
       enableMediaType (enable_reply (worlds env (position ''7'' [email_down]))) =
         Some (ApiError 1 ''Invalid params'' ''denied'') \<and>
       m_state out ''7'' = Some 0 \<and>
       filter (\<lambda>x. x = ''7'') (m_updates out) = [''7''] \<and>
       EnableFailed ''Email'' (ApiError 1 ''Invalid params'' ''denied'') \<in> set (m_posted out) \<and>
       filter (\<lambda>x. x = ''7'') (m_updates (processMediaTypes ex_cfg True env' (m_state out))) = [''7''])"
proof -
  let ?env = "media_cycle_env (Reply 0 [] [] [email_down]) (61 * Minute) (world_fail (61 * Minute))"
  let ?env' = "media_cycle_env (Reply 0 [] [] [email_down]) (66 * Minute) (world_fail (66 * Minute))"
  have fetch: "getMediaTypes (media_reply ?env) = Inr [email_down]"
    and fetch': "getMediaTypes (media_reply ?env') = Inr [email_down]"
    by (simp_all add: ex_simps)
  have once: "occurrences ''7'' [email_down] = [email_down]" by (simp add: ex_simps)
  have down: "Status email_down = ''1''" by (simp add: ex_simps)
  have tracked: "[''7'' \<mapsto> (0::int)] ''7'' = Some 0" by simp
  have due: "OffDuration ex_cfg \<le> Sub (now ?env) 0" and due': "OffDuration ex_cfg \<le> Sub (now ?env') 0"
    by (simp_all add: ex_simps)
  have failed: "enableMediaType (enable_reply (worlds ?env (position ''7'' [email_down]))) =
      Some (ApiError 1 ''Invalid params'' ''denied'')"
    by (simp add: ex_simps)
  have hook: "MattermostWebhook ex_cfg \<noteq> ''''" and name: "MediaType.Name email_down = ''Email''"
    by (simp_all add: ex_simps)
  from failed_enable_keeps_entry [where st = "[''7'' \<mapsto> 0]" and k = "''7''" and sysLogger = True,
      OF fetch once down tracked due failed fetch' once down due'] hook name due failed
  show ?thesis unfolding Let_def by simp
qed

text \<open>
  C2 as stated asks for exactly one attempt at or after \<open>T + OffDuration\<close>. The channel
  \<open>7\<close> is first seen disabled at 0 with a threshold of 60 minutes; the attempt of the
  cycle at minute 61 fails, and the cycle at minute 66 makes a second one.
\<close>

theorem single_remediation_counterexample:
  "count_list
     (attempts (snd (main_loop ex_cfg True
        [cycle_at 0 (world_ok 0),
         cycle_at (61 * Minute) (world_fail (61 * Minute)),
         cycle_at (66 * Minute) (world_ok (66 * Minute))]
        (main_init NotExist NotExist))))
     ''7'' = 2"
  by (simp add: main_init_def loadState_def loadGroupState_def main_cycle_def processMediaTypes_def
      processUserGroups_def getUserGroups_def media_iter_def notify_def syslog_write_def
      sendMattermostNotification_eq Let_def ex_simps)

text \<open>
  C2, as the code has it. Let the channel \<open>k\<close> be untracked and let a cycle at time
  \<open>T\<close> find it disabled, so that \<open>T\<close> is when it is first observed disabled. Let
  every later cycle of the run find it once in the list and disabled, and let no attempt
  to enable it succeed before the last cycle of the run. Then (for a threshold that is a
  Duration above the least one) the cycle at \<open>T\<close> calls \<^verbatim>\<open>mediatype.update\<close> for
  \<open>k\<close> not at all; a later cycle calls it not at all when its time is before
  \<open>T + OffDuration\<close> and exactly once when its time is at or after \<open>T + OffDuration\<close>;
  so the number of attempts is the number of cycles at or after \<open>T + OffDuration\<close>:
  one per cycle until the first success. The entry stays \<open>T\<close> while the attempts fail
  and is removed by the attempt that succeeds.
\<close>

theorem remediation_repeats_until_success:
  fixes cfg :: Config and sysLogger :: bool and s :: main_state
  assumes range: "minDuration < OffDuration cfg" "OffDuration cfg \<le> maxDuration"
    and untracked: "media_state s k = None"
    and first: "observed_down k (media_env env0)"
    and down: "\<forall>env \<in> set envs. observed_down k (media_env env)"
    and nosucc: "\<forall>env \<in> set (butlast envs).
        now (media_env env0) + OffDuration cfg \<le> now (media_env env) \<longrightarrow> \<not> enable_ok k (media_env env)"
  defines "T \<equiv> now (media_env env0)"
  defines "run \<equiv> main_loop cfg sysLogger (env0 # envs) s"
  shows "count_list (m_updates (media_out (hd (snd run)))) k = 0
    \<and> list_all2 (\<lambda>env out. count_list (m_updates (media_out out)) k =
             (if T + OffDuration cfg \<le> now (media_env env) then 1 else 0))
         envs (tl (snd run))
    \<and> count_list (attempts (snd run)) k =
         length (filter (\<lambda>env. T + OffDuration cfg \<le> now (media_env env)) envs)
    \<and> media_state (fst run) k =
         (if envs \<noteq> [] \<and> T + OffDuration cfg \<le> now (media_env (last envs)) \<and>
             enable_ok k (media_env (last envs))
          then None else Some T)"
proof -
  let ?s1 = "fst (main_cycle cfg sysLogger env0 s)"
  from first obtain media where fetch: "getMediaTypes (media_reply (media_env env0)) = Inr (fetched (media_env env0))"
    and once: "occurrences k (fetched (media_env env0)) = [media]" and st: "Status media = ''1''"
    by (rule observed_downD)
  note det = untracked_down [where st = "media_state s" and k = k and sl = sysLogger and cfg = cfg,
      OF fetch once st untracked]
  have tr: "media_state ?s1 k = Some T"
    using det(1) by (simp add: main_cycle_media T_def)
  have zero: "count_list (m_updates (media_out (snd (main_cycle cfg sysLogger env0 s)))) k = 0"
    using det(2) by (simp add: main_cycle_media count_list_filter)
  note rest = tracked_run [where s = ?s1 and sl = sysLogger, OF range tr down nosucc [folded T_def]]
  have run: "snd run = snd (main_cycle cfg sysLogger env0 s) # snd (main_loop cfg sysLogger envs ?s1)"
    "fst run = fst (main_loop cfg sysLogger envs ?s1)"
    by (simp_all add: run_def main_loop_Cons del: main_loop.simps)
  from zero rest show ?thesis
    unfolding run by (simp add: attempts_Cons_count del: attempts.simps)
qed

theorem remediation_repeats_until_success_witness:
  "count_list (attempts (snd (main_loop ex_cfg True
      [cycle_at 0 (world_ok 0),
       cycle_at (30 * Minute) (world_ok (30 * Minute)),
       cycle_at (61 * Minute) (world_fail (61 * Minute)),
       cycle_at (66 * Minute) (world_ok (66 * Minute))]
      (main_init NotExist NotExist)))) ''7'' = 2
   \<and> media_state (fst (main_loop ex_cfg True
      [cycle_at 0 (world_ok 0),
       cycle_at (30 * Minute) (world_ok (30 * Minute)),
       cycle_at (61 * Minute) (world_fail (61 * Minute)),
       cycle_at (66 * Minute) (world_ok (66 * Minute))]
      (main_init NotExist NotExist))) ''7'' = None"
proof -
  let ?env0 = "cycle_at 0 (world_ok 0)"
  let ?envs = "[cycle_at (30 * Minute) (world_ok (30 * Minute)),
                cycle_at (61 * Minute) (world_fail (61 * Minute)),
                cycle_at (66 * Minute) (world_ok (66 * Minute))]"
  have range: "minDuration < OffDuration ex_cfg" "OffDuration ex_cfg \<le> maxDuration"
    by (simp_all add: ex_simps)
  have untracked: "media_state (main_init NotExist NotExist) ''7'' = None"
    by (simp add: main_init_def loadState_def loadGroupState_def)
  have first: "observed_down ''7'' (media_env ?env0)"
    by (simp add: observed_down_def ex_simps)
  have down: "\<forall>env \<in> set ?envs. observed_down ''7'' (media_env env)"
    by (simp add: observed_down_def ex_simps)
  have nosucc: "\<forall>env \<in> set (butlast ?envs). now (media_env ?env0) + OffDuration ex_cfg \<le> now (media_env env)
           \<longrightarrow> \<not> enable_ok ''7'' (media_env env)"
    by (simp add: enable_ok_def ex_simps)
  have ok: "enable_ok ''7'' (media_env (cycle_at (66 * Minute) (world_ok (66 * Minute))))"
    by (simp add: enable_ok_def ex_simps)
  from remediation_repeats_until_success [where k = "''7''" and sysLogger = True,
      OF range untracked first down nosucc] ok
  show ?thesis
    by (simp add: observed_down_def enable_ok_def ex_simps del: main_loop.simps)
qed

text \<open>
  C8 as stated lets the second run post no alert and change nothing. A channel tracked
  for 31 minutes gets its reminder from the second run as from the first; and after a
  first run that has enabled the channel at minute 61 and dropped its entry, a second
  run on the same list records the channel anew.
\<close>

theorem second_run_counterexample:
  "m_posted (processMediaTypes ex_cfg True
      (media_env (cycle_at (31 * Minute) (world_ok (31 * Minute))))
      (m_state (processMediaTypes ex_cfg True
         (media_env (cycle_at (31 * Minute) (world_ok (31 * Minute)))) email_tracked)))
     = [Reminder ''Email'' (31 * Minute) (29 * Minute)]
   \<and> m_state (processMediaTypes ex_cfg True
        (media_env (cycle_at (61 * Minute) (world_ok (61 * Minute)))) email_tracked) ''7'' = None
   \<and> m_state (processMediaTypes ex_cfg True
        (media_env (cycle_at (61 * Minute) (world_ok (61 * Minute))))
        (m_state (processMediaTypes ex_cfg True
           (media_env (cycle_at (61 * Minute) (world_ok (61 * Minute)))) email_tracked))) ''7''
      = Some (61 * Minute)"
  by (simp add: cycle_simps email_tracked_def Since_def Minutes_ge_30 Round_def dminus_def wrap64_def
      signed_modulo_int_def)

text \<open>
  C8, as the code has it. Let the fetched channels have pairwise different ids, let the
  threshold be positive, and let a first run of the cycle make no attempt to enable a
  channel. A second run with the same list and the same reading of the clock leaves the
  watch-state as the first run left it, writes no state file, calls
  \<^verbatim>\<open>mediatype.update\<close> for no channel, sends nothing to syslog, and posts nothing but
  reminders.
\<close>

theorem second_run_only_reminds:
  fixes cfg :: Config and sysLogger :: bool and env env' :: media_env and st :: MediaState
  assumes fetch: "getMediaTypes (media_reply env) = Inr ms"
    and dist: "distinct (map MediaTypeID ms)"
    and pos: "0 < OffDuration cfg"
    and quiet: "m_updates (processMediaTypes cfg sysLogger env st) = []"
    and same: "media_reply env' = media_reply env" "now env' = now env"
  defines "first \<equiv> processMediaTypes cfg sysLogger env st"
  defines "second \<equiv> processMediaTypes cfg sysLogger env' (m_state first)"
  shows "m_state second = m_state first \<and> m_written second = None \<and> m_updates second = [] \<and>
         m_sysmsgs second = [] \<and> list_all is_reminder (m_posted second)"
proof (cases "ms = []")
  case True
  with fetch same show ?thesis
    by (simp add: second_def processMediaTypes_def)
next
  case False
  let ?r0 = "\<lparr>state = m_state first, stateChanged = False, foundDisabled = False,
              posted = [], sysmsgs = [], updates = []\<rparr>"
  have "\<forall>media \<in> set ms. settled cfg (now env) (state ?r0) media"
    using first_run_settles [OF fetch dist pos quiet] by (simp add: first_def)
  from media_loop_settled [OF this, of sysLogger "worlds env'" 0]
  show ?thesis
    using fetch same False
    by (auto simp: second_def processMediaTypes_def Let_def)
qed

theorem second_run_only_reminds_witness:
  "(let env = media_env (cycle_at (31 * Minute) (world_ok (31 * Minute)));
        first = processMediaTypes ex_cfg True env email_tracked;
        second = processMediaTypes ex_cfg True env (m_state first)
    in distinct (map MediaTypeID [email_down]) \<and> 0 < OffDuration ex_cfg \<and> m_updates first = [] \<and>
       m_state second = m_state first \<and> m_written second = None \<and> m_updates second = [] \<and>
       m_sysmsgs second = [] \<and> list_all is_reminder (m_posted second))"
proof -
  let ?env = "media_env (cycle_at (31 * Minute) (world_ok (31 * Minute)))"
  have fetch: "getMediaTypes (media_reply ?env) = Inr [email_down]"
    by (simp add: ex_simps)
  have dist: "distinct (map MediaTypeID [email_down])" by simp
  have pos: "0 < OffDuration ex_cfg" by (simp add: ex_simps)
  have quiet: "m_updates (processMediaTypes ex_cfg True ?env email_tracked) = []"
    by (simp add: cycle_simps email_tracked_def)
  from second_run_only_reminds [where sysLogger = True and st = email_tracked,
      OF fetch dist pos quiet refl refl] dist pos quiet
  show ?thesis unfolding Let_def by blast
qed

section \<open>Properties of the Group Drift Detector\<close>

text \<open>
  C4. The structural diff is the specified one. Let the current state be what
  \<^verbatim>\<open>getUserGroups\<close> builds from a reply in which no group lists a user twice, let the
  prior state store its member sets as sorted sequences without repetition, and let the
  two \<^verbatim>\<open>range\<close> loops meet the keys of their maps in any order. Then
  \<^verbatim>\<open>compareGroupStates\<close> returns, up to order, exactly one description for each change
  of the four kinds: "added" for each id in current and not in prior, "renamed" for each
  id in both whose names differ, "membership changed" for each id in both whose member
  sets differ, "removed" for each id in prior and not in current; their number is the sum
  of the four counts. \<^verbatim>\<open>getUserGroups\<close> stores every member set sorted. The example has
  one change of each kind and gets four descriptions.
\<close>

theorem group_diff_as_specified:
  assumes observed: "getUserGroups reply = Inr current"
    and members: "\<forall>r \<in> set (rpc_result reply). distinct (gr_Users r)"
    and prior: "\<forall>k p. prev k = Some p \<longrightarrow> stored_set (Users p)"
    and keys_curr: "distinct kc" "set kc = dom current"
    and keys_prev: "distinct kp" "set kp = dom prev"
  shows "mset (compareGroupStates prev current kc kp) = specified_changes prev current
    \<and> length (compareGroupStates prev current kc kp) =
        card (added_ids prev current) + card (renamed_ids prev current) +
        card (regrouped_ids prev current) + card (removed_ids prev current)
    \<and> (\<forall>k c. current k = Some c \<longrightarrow> stored_set (Users c))"
proof -
  have cur: "\<forall>k c. current k = Some c \<longrightarrow> stored_set (Users c)"
    using getUserGroups_wf(3) [OF observed _ members] by blast
  with prior have "\<forall>k p c. prev k = Some p \<longrightarrow> current k = Some c \<longrightarrow>
      stored_set (Users p) \<and> stored_set (Users c)"
    by blast
  from compare_as_specified [OF keys_curr keys_prev this]
  have eq: "mset (compareGroupStates prev current kc kp) = specified_changes prev current" .
  have "length (compareGroupStates prev current kc kp) = size (mset (compareGroupStates prev current kc kp))"
    by simp
  also have "\<dots> = card (added_ids prev current) + card (renamed_ids prev current) +
        card (regrouped_ids prev current) + card (removed_ids prev current)"
    unfolding eq by (rule size_specified_changes)
  finally show ?thesis using eq cur by blast
qed

theorem group_diff_as_specified_witness:
  "getUserGroups (Reply 0 [] [] ex_result) = Inr ex_current \<and>
   compareGroupStates ex_prior ex_current [''1'', ''2'', ''4''] [''3'', ''1'', ''2''] =
     [MembersChanged ''Admins'', Renamed ''Dev'' ''Devs'', Added ''Ops'', Removed ''Old''] \<and>
   specified_changes ex_prior ex_current =
     {#MembersChanged ''Admins'', Renamed ''Dev'' ''Devs'', Added ''Ops'', Removed ''Old''#} \<and>
   card (added_ids ex_prior ex_current) + card (renamed_ids ex_prior ex_current) +
     card (regrouped_ids ex_prior ex_current) + card (removed_ids ex_prior ex_current) = 4"
proof -
  have members: "\<forall>r \<in> set (rpc_result (Reply 0 [] [] ex_result)). distinct (gr_Users r)"
    by (simp add: rpc_result_def ex_result_def)
  have prior: "\<forall>k p. ex_prior k = Some p \<longrightarrow> stored_set (Users p)"
    by (auto simp: ex_prior_def stored_set_def split: if_splits)
  have kc: "distinct [''1'', ''2'', ''4'']" "set [''1'', ''2'', ''4''] = dom ex_current"
    by (auto simp: ex_current_def)
  have kp: "distinct [''3'', ''1'', ''2'']" "set [''3'', ''1'', ''2''] = dom ex_prior"
    by (auto simp: ex_prior_def)
  have run: "compareGroupStates ex_prior ex_current [''1'', ''2'', ''4''] [''3'', ''1'', ''2''] =
     [MembersChanged ''Admins'', Renamed ''Dev'' ''Devs'', Added ''Ops'', Removed ''Old'']"
    by (simp add: compareGroupStates_def ex_prior_def ex_current_def stringSlicesEqual_def)
  from group_diff_as_specified [OF ex_current members prior kc kp] run
  show ?thesis using ex_current by simp
qed

text \<open>
  C5. After a cycle that is not the baseline, whose fetch and whose write (if any)
  succeed, the prior in memory is the current observation. When the comparison finds
  changes, the prior is rebuilt to be the observation, which is also written to the
  snapshot file, and every change is posted (with a webhook) and logged to syslog (with a
  syslog writer) on its own. When it finds none, nothing is written, posted or logged,
  and the prior already is the observation. The prior is a snapshot the program has
  recorded: the \<^verbatim>\<open>ID\<close> field of every entry is its key.
\<close>

theorem prior_mirrors_observation:
  fixes cfg :: Config and sysLogger :: bool and env :: group_env and prev :: GroupState
  assumes fetch: "getUserGroups (group_reply env) = Inr current"
    and keys: "set (range_curr env) = dom current" "set (range_prev env) = dom prev"
    and recorded: "\<forall>k p. prev k = Some p \<longrightarrow> ID p = k"
    and written: "group_write_ok env"
  defines "changes \<equiv> compareGroupStates prev current (range_curr env) (range_prev env)"
  defines "out \<equiv> processUserGroups cfg sysLogger env prev False"
  shows "(changes \<noteq> [] \<longrightarrow> g_prev out = current \<and> g_written out = Some current)
    \<and> (changes = [] \<longrightarrow> g_written out = None \<and> g_posted out = [] \<and> g_sysmsgs out = [])
    \<and> g_prev out = current
    \<and> g_posted out = (if MattermostWebhook cfg \<noteq> '''' then map GroupChange changes else [])
    \<and> g_sysmsgs out = (if sysLogger then map SysGroupChange changes else [])"
proof -
  have out: "out =
      (if changes \<noteq> [] then
         \<lparr>g_prev = current, g_written = Some current,
          g_posted = (if MattermostWebhook cfg \<noteq> '''' then map GroupChange changes else []),
          g_sysmsgs = (if sysLogger then map SysGroupChange changes else [])\<rparr>
       else \<lparr>g_prev = prev, g_written = None, g_posted = [], g_sysmsgs = []\<rparr>)"
    using fetch written
    by (simp add: out_def processUserGroups_def changes_def Let_def report_changes_eq
        rebuild_prev saveGroupState_def)
  show ?thesis
  proof (cases "changes = []")
    case True
    have "\<forall>k c. current k = Some c \<longrightarrow> ID c = k"
      using getUserGroups_wf(1) [OF fetch] by blast
    from no_changes_same [OF True [unfolded changes_def] keys recorded this]
    have "prev = current" .
    with True show ?thesis by (simp add: out)
  next
    case False
    then show ?thesis by (simp add: out)
  qed
qed

theorem prior_mirrors_observation_witness:
  "compareGroupStates ex_prior ex_current [''1'', ''2'', ''4''] [''3'', ''1'', ''2''] \<noteq> [] \<and>
   g_prev (processUserGroups ex_cfg True
     (group_env (groups_cycle (Reply 0 [] [] ex_result) [''1'', ''2'', ''4''] [''3'', ''1'', ''2'']))
     ex_prior False) = ex_current \<and>
   g_written (processUserGroups ex_cfg True
     (group_env (groups_cycle (Reply 0 [] [] ex_result) [''1'', ''2'', ''4''] [''3'', ''1'', ''2'']))
     ex_prior False) = Some ex_current \<and>
   g_posted (processUserGroups ex_cfg True
     (group_env (groups_cycle (Reply 0 [] [] ex_result) [''1'', ''2'', ''4''] [''3'', ''1'', ''2'']))
     ex_prior False) =
     [GroupChange (MembersChanged ''Admins''), GroupChange (Renamed ''Dev'' ''Devs''),
      GroupChange (Added ''Ops''), GroupChange (Removed ''Old'')]"
proof -
  let ?env = "group_env (groups_cycle (Reply 0 [] [] ex_result) [''1'', ''2'', ''4''] [''3'', ''1'', ''2''])"
  have fetch: "getUserGroups (group_reply ?env) = Inr ex_current"
    by (simp add: groups_cycle_def ex_current)
  have keys: "set (range_curr ?env) = dom ex_current" "set (range_prev ?env) = dom ex_prior"
    by (auto simp: groups_cycle_def ex_current_def ex_prior_def)
  have recorded: "\<forall>k p. ex_prior k = Some p \<longrightarrow> ID p = k"
    by (auto simp: ex_prior_def split: if_splits)
  have written: "group_write_ok ?env" by (simp add: groups_cycle_def)
  have changes: "compareGroupStates ex_prior ex_current [''1'', ''2'', ''4''] [''3'', ''1'', ''2''] =
     [MembersChanged ''Admins'', Renamed ''Dev'' ''Devs'', Added ''Ops'', Removed ''Old'']"
    by (simp add: compareGroupStates_def ex_prior_def ex_current_def stringSlicesEqual_def)
  have hook: "MattermostWebhook ex_cfg \<noteq> ''''" by (simp add: ex_cfg_def)
  have r: "range_curr ?env = [''1'', ''2'', ''4'']" "range_prev ?env = [''3'', ''1'', ''2'']"
    by (simp_all add: groups_cycle_def)
  from prior_mirrors_observation [where cfg = ex_cfg and sysLogger = True, OF fetch keys recorded written]
  show ?thesis by (simp add: r changes hook)
qed

text \<open>
  C1. The process starts without a snapshot file. The group fetch of the first cycle
  fails; \<^verbatim>\<open>main\<close> sets \<^verbatim>\<open>groupStateExisted\<close> all the same, so the second cycle, whose
  fetch succeeds, is no baseline: it compares the three groups it observes with the empty
  prior and posts "added" for each of them. When the first fetch succeeds, the same
  observation is a baseline and posts nothing.
\<close>

theorem baseline_skipped_after_failed_fetch:
  "map baseline (snd (main_loop ex_cfg True
      [groups_cycle PostFailed [] [],
       groups_cycle (Reply 0 [] [] ex_result) [''1'', ''2'', ''4''] []]
      (main_init NotExist NotExist))) = [True, False]
   \<and> g_posted (group_out (snd (main_loop ex_cfg True
      [groups_cycle PostFailed [] [],
       groups_cycle (Reply 0 [] [] ex_result) [''1'', ''2'', ''4''] []]
      (main_init NotExist NotExist)) ! 1))
     = [GroupChange (Added ''Admins''), GroupChange (Added ''Devs''), GroupChange (Added ''Ops'')]
   \<and> g_posted (group_out (snd (main_loop ex_cfg True
      [groups_cycle (Reply 0 [] [] ex_result) [''1'', ''2'', ''4''] []]
      (main_init NotExist NotExist)) ! 0)) = []"
  by (simp add: cycle_simps groups_cycle_def ex_result_def compareGroupStates_def
      sendMattermostNotification_eq store_all_def delete_stale_def saveGroupState_def)

end
